theory Spec2Isabelle
  imports Complex_Main "HOL-Library.Char_ord" "HOL-Library.List_Lexorder"
begin

section \<open>Data model of \<^verbatim>\<open>maskrcnn_benchmark/engine/trainer.py\<close>\<close>

text \<open>
  A loss dictionary maps the name of a loss component to a scalar tensor. Python
  dictionaries keep their insertion order, and one of the properties below is about key
  order, so a dictionary is an association list in insertion order; a Python dict never
  repeats a key, which is the invariant \<open>distinct (map fst d)\<close>. Names are strings,
  compared as Python compares \<^verbatim>\<open>str\<close>: lexicographically, character by character.
  Scalar tensors are modelled by real numbers: rounding of the floating-point
  arithmetic is abstracted away.
\<close>

type_synonym loss_dict = "(string \<times> real) list"

datatype error = KeyError | RuntimeError | AttributeError | TypeError | ZeroDivisionError

text \<open>
  \<^verbatim>\<open>sum(loss for loss in d.values())\<close> starts from the Python integer \<open>0\<close>
  and adds the tensors one by one: over an empty dictionary the value is the integer
  \<open>0\<close>, not a tensor.
\<close>

datatype pynum = PyInt int | Tensor real

fun py_add :: "pynum \<Rightarrow> real \<Rightarrow> pynum" where
  "py_add (PyInt i) v = Tensor (of_int i + v)"
| "py_add (Tensor a) v = Tensor (a + v)"

definition py_sum :: "real list \<Rightarrow> pynum" where
  "py_sum vs = foldl py_add (PyInt 0) vs"

text \<open>
  Modelled from the spec: \<^verbatim>\<open>MetricLogger\<close>
  (\<^verbatim>\<open>maskrcnn_benchmark/utils/metric_logger.py\<close> is not among the sources). The spec
  calls it a metric accumulator; it is represented by the sequence of updates it has
  received, each update being the keyword \<^verbatim>\<open>loss\<close> and the loss dictionary
  passed along with it.
\<close>

type_synonym meter = "(pynum \<times> loss_dict) list"

datatype which_meter = TrainMeters | TestMeters

datatype log_msg = StartTraining | MetersMsg meter | TestMsg meter | TotalTimeMsg

text \<open>
  Every call that leaves \<^verbatim>\<open>trainer.py\<close> is recorded, in program order, in a trace.
  \<open>DistReduce t\<close> is the collective \<^verbatim>\<open>dist.reduce(t, dst=0)\<close>, the only call of the
  file that communicates with the other workers.
\<close>

datatype event =
    LogDebug log_msg
  | ModelTrain
  | SchedulerStep
  | ToDevice
  | ModelCall
  | DistReduce "real list"
  | MeterUpdate which_meter pynum loss_dict
  | ZeroGrad
  | Backward real
  | OptimizerStep

text \<open>
  The collaborators (model, optimizer, scheduler, the distributed backend) are opaque:
  each is a transformer of an external state \<open>'s\<close>. \<open>get_world_size\<close>
  (\<^verbatim>\<open>maskrcnn_benchmark/utils/comm.py\<close> is not among the sources) and the rank are
  parameters. \<open>model_call\<close> returns \<open>None\<close> when the forward pass raises.
  \<open>dist_reduce\<close> gives the numbers the backend writes into this worker's buffer.
  Of the collaborators only the forward pass is modelled as able to raise.
\<close>

record ('s, 'b) world =
  get_world_size :: nat
  get_rank :: nat
  dist_reduce :: "real list \<Rightarrow> 's \<Rightarrow> real list \<times> 's"
  model_train :: "'s \<Rightarrow> 's"
  model_call :: "'b \<Rightarrow> 's \<Rightarrow> loss_dict option \<times> 's"
  to_device :: "'b \<Rightarrow> 'b"
  scheduler_step :: "'s \<Rightarrow> 's"
  zero_grad :: "'s \<Rightarrow> 's"
  backward :: "real \<Rightarrow> 's \<Rightarrow> 's"
  optimizer_step :: "'s \<Rightarrow> 's"

record 's proc =
  ext :: 's
  trace :: "event list"

definition call :: "event \<Rightarrow> ('s \<Rightarrow> 's) \<Rightarrow> ('s, 'z) proc_scheme \<Rightarrow> ('s, 'z) proc_scheme" where
  "call e f p = p\<lparr>ext := f (ext p), trace := trace p @ [e]\<rparr>"

definition emit :: "event \<Rightarrow> ('s, 'z) proc_scheme \<Rightarrow> ('s, 'z) proc_scheme" where
  "emit e p = p\<lparr>trace := trace p @ [e]\<rparr>"

section \<open>\<^verbatim>\<open>reduce_loss_dict\<close>\<close>

text \<open>
  Lines 25 to 27: the loop over \<^verbatim>\<open>sorted(loss_dict.keys())\<close> that appends each name
  and \<^verbatim>\<open>loss_dict[k]\<close>. A missing key would raise \<^verbatim>\<open>KeyError\<close>.
\<close>

fun collect :: "(string \<times> 'v) list \<Rightarrow> string list \<Rightarrow> error + (string list \<times> 'v list)" where
  "collect d [] = Inr ([], [])"
| "collect d (k # ks) =
     (case map_of d k of
        None \<Rightarrow> Inl KeyError
      | Some v \<Rightarrow>
          (case collect d ks of
             Inl e \<Rightarrow> Inl e
           | Inr (loss_names, all_losses) \<Rightarrow> Inr (k # loss_names, v # all_losses)))"

text \<open>\<^verbatim>\<open>torch.stack\<close> copies the scalars into a new tensor; it raises on an empty list.\<close>

definition torch_stack :: "real list \<Rightarrow> error + real list" where
  "torch_stack vs = (if vs = [] then Inl RuntimeError else Inr vs)"

text \<open>The collective writes into the buffer in place: the buffer keeps its length.\<close>

definition in_place :: "real list \<Rightarrow> real list \<Rightarrow> real list" where
  "in_place buf new = take (length buf) new @ drop (length new) buf"

text \<open>
  The dict comprehension of line 34 inserts the pairs one by one: a name seen before
  keeps its position and takes the new value.
\<close>

fun dict_set :: "(string \<times> 'v) list \<Rightarrow> string \<Rightarrow> 'v \<Rightarrow> (string \<times> 'v) list" where
  "dict_set [] k v = [(k, v)]"
| "dict_set ((k', v') # d) k v = (if k' = k then (k', v) # d else (k', v') # dict_set d k v)"

definition dict_of_items :: "(string \<times> 'v) list \<Rightarrow> (string \<times> 'v) list" where
  "dict_of_items kvs = foldl (\<lambda>d (k, v). dict_set d k v) [] kvs"

definition reduce_loss_dict ::
  "('s, 'b) world \<Rightarrow> loss_dict \<Rightarrow> ('s, 'z) proc_scheme \<Rightarrow> (error + loss_dict) \<times> ('s, 'z) proc_scheme" where
  "reduce_loss_dict w loss_dict p =
     (let world_size = get_world_size w in
      if world_size < 2 then (Inr loss_dict, p)
      else
        (case collect loss_dict (sort (map fst loss_dict)) of
           Inl e \<Rightarrow> (Inl e, p)
         | Inr (loss_names, losses) \<Rightarrow>
             (case torch_stack losses of
                Inl e \<Rightarrow> (Inl e, p)
              | Inr all_losses \<Rightarrow>
                  (let (received, s') = dist_reduce w all_losses (ext p);
                       p' = p\<lparr>ext := s', trace := trace p @ [DistReduce all_losses]\<rparr>;
                       reduced = in_place all_losses received;
                       averaged = (if get_rank w = 0
                                   then map (\<lambda>v. v / real world_size) reduced
                                   else reduced)
                   in (Inr (dict_of_items (zip loss_names averaged)), p')))))"

section \<open>\<^verbatim>\<open>do_train\<close>\<close>

text \<open>
  The mutable state of \<^verbatim>\<open>do_train\<close>: the external state and the trace, the caller's
  \<^verbatim>\<open>arguments\<close> mapping (mutated in place) and the two metric loggers.
\<close>

record 's train_state = "'s proc" +
  arguments :: "string \<rightharpoonup> int"
  train_meters :: meter
  test_meters :: meter

text \<open>
  \<^verbatim>\<open>meters.update(loss=total, **reduced)\<close>: Python refuses the call with
  \<^verbatim>\<open>TypeError\<close> when \<^verbatim>\<open>reduced\<close> itself has a key \<^verbatim>\<open>loss\<close> (the keyword
  would be given twice).
\<close>

definition meter_update :: "pynum \<Rightarrow> loss_dict \<Rightarrow> meter \<Rightarrow> error + meter" where
  "meter_update loss kwargs m =
     (if ''loss'' \<in> set (map fst kwargs) then Inl TypeError else Inr (m @ [(loss, kwargs)]))"

text \<open>\<^verbatim>\<open>enumerate(loader, start)\<close>.\<close>

fun enumerate_py :: "int \<Rightarrow> 'a list \<Rightarrow> (int \<times> 'a) list" where
  "enumerate_py n [] = []"
| "enumerate_py n (x # xs) = (n, x) # enumerate_py (n + 1) xs"

text \<open>
  Lines 55 to 79, the body of the training loop. \<^verbatim>\<open>continue\<close> in the handler of the
  bare \<^verbatim>\<open>except\<close> ends the iteration with the state reached so far. The integer
  \<open>0\<close> has no method \<^verbatim>\<open>backward\<close>: \<^verbatim>\<open>AttributeError\<close>.
\<close>

definition train_step ::
  "('s, 'b) world \<Rightarrow> nat \<Rightarrow> 's train_state \<Rightarrow> int \<times> 'b \<Rightarrow> error + 's train_state" where
  "train_step w max_iter st ib =
     (let iteration = fst ib + 1;
          st1 = st\<lparr>arguments := (arguments st)(''iteration'' \<mapsto> iteration)\<rparr>;
          st2 = call SchedulerStep (scheduler_step w) st1;
          batch = to_device w (snd ib);
          st3 = emit ToDevice st2;
          (r, s') = model_call w batch (ext st3);
          st4 = (emit ModelCall st3)\<lparr>ext := s'\<rparr>
      in case r of
           None \<Rightarrow> Inr st4
         | Some loss_dict \<Rightarrow>
             (let losses = py_sum (map snd loss_dict) in
              case reduce_loss_dict w loss_dict st4 of
                (Inl e, _) \<Rightarrow> Inl e
              | (Inr loss_dict_reduced, st5) \<Rightarrow>
                  (let losses_reduced = py_sum (map snd loss_dict_reduced) in
                   case meter_update losses_reduced loss_dict_reduced (train_meters st5) of
                     Inl e \<Rightarrow> Inl e
                   | Inr m \<Rightarrow>
                       (let st6 = emit (MeterUpdate TrainMeters losses_reduced loss_dict_reduced)
                                    (st5\<lparr>train_meters := m\<rparr>);
                            st7 = call ZeroGrad (zero_grad w) st6
                        in case losses of
                             PyInt _ \<Rightarrow> Inl AttributeError
                           | Tensor l \<Rightarrow>
                               (let st8 = call (Backward l) (backward w l) st7;
                                    st9 = call OptimizerStep (optimizer_step w) st8
                                in Inr (if iteration mod 10 = 0 \<or> iteration = int max_iter
                                        then emit (LogDebug (MetersMsg (train_meters st9))) st9
                                        else st9))))))"

fun train_loop ::
  "('s, 'b) world \<Rightarrow> nat \<Rightarrow> 's train_state \<Rightarrow> (int \<times> 'b) list \<Rightarrow> error + 's train_state" where
  "train_loop w max_iter st [] = Inr st"
| "train_loop w max_iter st (ib # rest) =
     (case train_step w max_iter st ib of
        Inl e \<Rightarrow> Inl e
      | Inr st' \<Rightarrow> train_loop w max_iter st' rest)"

text \<open>Lines 83 to 93, the body of the test loop.\<close>

definition test_step :: "('s, 'b) world \<Rightarrow> 's train_state \<Rightarrow> 'b \<Rightarrow> error + 's train_state" where
  "test_step w st b =
     (let batch = to_device w b;
          st1 = emit ToDevice st;
          (r, s') = model_call w batch (ext st1);
          st2 = (emit ModelCall st1)\<lparr>ext := s'\<rparr>
      in case r of
           None \<Rightarrow> Inr st2
         | Some test_loss_dict \<Rightarrow>
             (case reduce_loss_dict w test_loss_dict st2 of
                (Inl e, _) \<Rightarrow> Inl e
              | (Inr test_loss_dict_reduced, st3) \<Rightarrow>
                  (let test_losses_reduced = py_sum (map snd test_loss_dict_reduced) in
                   case meter_update test_losses_reduced test_loss_dict_reduced (test_meters st3) of
                     Inl e \<Rightarrow> Inl e
                   | Inr m \<Rightarrow>
                       Inr (emit (MeterUpdate TestMeters test_losses_reduced test_loss_dict_reduced)
                              (st3\<lparr>test_meters := m\<rparr>)))))"

fun test_loop :: "('s, 'b) world \<Rightarrow> 's train_state \<Rightarrow> 'b list \<Rightarrow> error + 's train_state" where
  "test_loop w st [] = Inr st"
| "test_loop w st (b # rest) =
     (case test_step w st b of
        Inl e \<Rightarrow> Inl e
      | Inr st' \<Rightarrow> test_loop w st' rest)"

text \<open>
  \<^verbatim>\<open>do_train\<close>. The data loaders are the lists of their batches, the device is part of
  \<open>to_device\<close>. \<^verbatim>\<open>arguments["iteration"]\<close> raises \<^verbatim>\<open>KeyError\<close> when the key
  is missing; the final message divides the elapsed time by \<^verbatim>\<open>max_iter\<close>, which raises
  \<^verbatim>\<open>ZeroDivisionError\<close> for an empty training loader. The result is the returned pair
  together with the final state (the mutated \<^verbatim>\<open>arguments\<close> and the trace).
\<close>

definition do_train ::
  "('s, 'b) world \<Rightarrow> 'b list \<Rightarrow> 'b list \<Rightarrow> (string \<rightharpoonup> int) \<Rightarrow> 's
     \<Rightarrow> error + ((meter \<times> meter) \<times> 's train_state)" where
  "do_train w train_data_loader test_data_loader args s0 =
     (let st0 = \<lparr>ext = s0, trace = [LogDebug StartTraining], arguments = args,
                 train_meters = [], test_meters = []\<rparr>;
          max_iter = length train_data_loader
      in case args ''iteration'' of
           None \<Rightarrow> Inl KeyError
         | Some start_iter \<Rightarrow>
             (let st1 = call ModelTrain (model_train w) st0 in
              case train_loop w max_iter st1 (enumerate_py start_iter train_data_loader) of
                Inl e \<Rightarrow> Inl e
              | Inr st2 \<Rightarrow>
                  (case test_loop w (st2\<lparr>test_meters := []\<rparr>) test_data_loader of
                     Inl e \<Rightarrow> Inl e
                   | Inr st3 \<Rightarrow>
                       (let st4 = emit (LogDebug (TestMsg (test_meters st3))) st3 in
                        if max_iter = 0 then Inl ZeroDivisionError
                        else Inr ((train_meters st4, test_meters st4),
                                  emit (LogDebug TotalTimeMsg) st4)))))"

section \<open>\<^verbatim>\<open>reduce_loss_dict\<close> on a store\<close>

text \<open>
  Whether \<^verbatim>\<open>reduce_loss_dict\<close> mutates its input depends on aliasing, so here the
  same function is written over an explicit store. A tensor storage is a list of numbers
  at an address; a scalar tensor is a reference to one element of a storage (address and
  offset), so that the elements of the stacked tensor, which line 34 puts into the new
  dictionary, are views of its storage. A dictionary object is a list of names and tensor
  references at an address of its own. \<^verbatim>\<open>torch.stack\<close> allocates a storage and copies
  the values into it; \<^verbatim>\<open>dist.reduce\<close> and \<^verbatim>\<open>/=\<close> overwrite that storage in place;
  the dict comprehension allocates a dictionary.
\<close>

type_synonym tref = "nat \<times> nat"

record store =
  tensors :: "real list list"
  dicts :: "(string \<times> tref) list list"

definition read_tensor :: "store \<Rightarrow> tref \<Rightarrow> real" where
  "read_tensor h t = tensors h ! fst t ! snd t"

definition deref :: "store \<Rightarrow> nat \<Rightarrow> loss_dict" where
  "deref h r = map (\<lambda>(k, t). (k, read_tensor h t)) (dicts h ! r)"

definition reduce_loss_dict_store ::
  "('s, 'b) world \<Rightarrow> nat \<Rightarrow> store \<Rightarrow> ('s, 'z) proc_scheme
     \<Rightarrow> (error + nat) \<times> store \<times> ('s, 'z) proc_scheme" where
  "reduce_loss_dict_store w r h p =
     (let world_size = get_world_size w;
          loss_dict = dicts h ! r
      in if world_size < 2 then (Inr r, h, p)
      else
        (case collect loss_dict (sort (map fst loss_dict)) of
           Inl e \<Rightarrow> (Inl e, h, p)
         | Inr (loss_names, losses) \<Rightarrow>
             (case torch_stack (map (read_tensor h) losses) of
                Inl e \<Rightarrow> (Inl e, h, p)
              | Inr vals \<Rightarrow>
                  (let a = length (tensors h);
                       h1 = h\<lparr>tensors := tensors h @ [vals]\<rparr>;
                       (received, s') = dist_reduce w (tensors h1 ! a) (ext p);
                       p' = p\<lparr>ext := s', trace := trace p @ [DistReduce (tensors h1 ! a)]\<rparr>;
                       h2 = h1\<lparr>tensors := (tensors h1)[a := in_place (tensors h1 ! a) received]\<rparr>;
                       h3 = (if get_rank w = 0
                             then h2\<lparr>tensors :=
                                      (tensors h2)[a := map (\<lambda>v. v / real world_size) (tensors h2 ! a)]\<rparr>
                             else h2);
                       views = map (\<lambda>i. (a, i)) [0..<length (tensors h3 ! a)];
                       reduced_losses = dict_of_items (zip loss_names views)
                   in (Inr (length (dicts h3)), h3\<lparr>dicts := dicts h3 @ [reduced_losses]\<rparr>, p')))))"

section \<open>Notions used to state the properties\<close>

text \<open>The value a dictionary holds for a name (\<open>0\<close> for a name it does not have).\<close>

definition loss_of :: "loss_dict \<Rightarrow> string \<Rightarrow> real" where
  "loss_of d k = (case map_of d k of Some v \<Rightarrow> v | None \<Rightarrow> 0)"

text \<open>The values of a dictionary in the sorted order of its names.\<close>

definition stacked :: "loss_dict \<Rightarrow> real list" where
  "stacked d = map (loss_of d) (sort (map fst d))"

text \<open>
  The elementwise sum of the buffers of all workers: what
  \<^verbatim>\<open>dist.reduce(t, dst=0)\<close> with the default operation leaves in the buffer of
  rank \<open>0\<close>.
\<close>

fun sum_rows :: "real list list \<Rightarrow> real list" where
  "sum_rows [] = []"
| "sum_rows [row] = row"
| "sum_rows (row # rows) = map2 (+) row (sum_rows rows)"

text \<open>The contents of this worker's buffer once the collective has returned.\<close>

definition post_reduce :: "('s, 'b) world \<Rightarrow> loss_dict \<Rightarrow> 's \<Rightarrow> real list" where
  "post_reduce w d s = in_place (stacked d) (fst (dist_reduce w (stacked d) s))"

text \<open>The number of collective calls in a trace, and the updates a logger received.\<close>

fun is_reduce :: "event \<Rightarrow> bool" where
  "is_reduce (DistReduce t) = True"
| "is_reduce e = False"

definition reduce_calls :: "event list \<Rightarrow> nat" where
  "reduce_calls tr = length (filter is_reduce tr)"

fun updates_of :: "which_meter \<Rightarrow> event list \<Rightarrow> meter" where
  "updates_of m [] = []"
| "updates_of m (MeterUpdate m' l d # es) =
     (if m' = m then (l, d) # updates_of m es else updates_of m es)"
| "updates_of m (e # es) = updates_of m es"

text \<open>
  The state of the training loop at the point where the forward pass has been attempted
  on the batch with index \<open>i\<close> of \<^verbatim>\<open>enumerate\<close>, leaving the external state \<open>s'\<close>:
  \<^verbatim>\<open>arguments["iteration"]\<close> holds \<open>i + 1\<close>, and the scheduler step, the move to
  the device and the call of the model are in the trace, in this order.
\<close>

definition after_forward :: "'s train_state \<Rightarrow> int \<Rightarrow> 's \<Rightarrow> 's train_state" where
  "after_forward st i s' =
     st\<lparr>ext := s', trace := trace st @ [SchedulerStep, ToDevice, ModelCall],
        arguments := (arguments st)(''iteration'' \<mapsto> i + 1)\<rparr>"

text \<open>The same point of the test loop.\<close>

definition after_test_forward :: "'s train_state \<Rightarrow> 's \<Rightarrow> 's train_state" where
  "after_test_forward st s' = st\<lparr>ext := s', trace := trace st @ [ToDevice, ModelCall]\<rparr>"

text \<open>The message of line 79, logged every tenth iteration and at the last one.\<close>

definition periodic_log :: "nat \<Rightarrow> int \<Rightarrow> meter \<Rightarrow> event list" where
  "periodic_log max_iter iteration m =
     (if iteration mod 10 = 0 \<or> iteration = int max_iter then [LogDebug (MetersMsg m)] else [])"

text \<open>
  The state at the end of a training iteration whose forward pass returned \<open>d\<close>, when
  \<^verbatim>\<open>reduce_loss_dict\<close> returned \<open>red\<close> in the state \<open>st5\<close>: the logger has
  received the reduced losses and their sum; then the gradients have been zeroed, the sum
  of the values of \<open>d\<close> itself has been backpropagated and the optimizer has stepped.
\<close>

definition trained ::
  "('s, 'b) world \<Rightarrow> nat \<Rightarrow> int \<Rightarrow> loss_dict \<Rightarrow> loss_dict \<Rightarrow> 's train_state \<Rightarrow> 's train_state" where
  "trained w max_iter i d red st5 =
     (let m = train_meters st5 @ [(py_sum (map snd red), red)] in
      st5\<lparr>ext := optimizer_step w (backward w (sum_list (map snd d)) (zero_grad w (ext st5))),
          trace := trace st5 @ [MeterUpdate TrainMeters (py_sum (map snd red)) red, ZeroGrad,
                                Backward (sum_list (map snd d)), OptimizerStep]
                     @ periodic_log max_iter (i + 1) m,
          train_meters := m\<rparr>)"

text \<open>The state at the end of a test iteration whose losses were reduced to \<open>red\<close>.\<close>

definition tested :: "loss_dict \<Rightarrow> 's train_state \<Rightarrow> 's train_state" where
  "tested red st3 =
     st3\<lparr>trace := trace st3 @ [MeterUpdate TestMeters (py_sum (map snd red)) red],
         test_meters := test_meters st3 @ [(py_sum (map snd red), red)]\<rparr>"

text \<open>
  A loss dictionary that \<^verbatim>\<open>do_train\<close> can process: it has at least one component and
  none of them is itself called \<^verbatim>\<open>loss\<close>.
\<close>

definition usable :: "loss_dict \<Rightarrow> bool" where
  "usable d = (d \<noteq> [] \<and> ''loss'' \<notin> set (map fst d))"

text \<open>
  The model behaves well on a batch when every loss dictionary its forward pass can return
  for that batch is a Python dictionary that \<^verbatim>\<open>do_train\<close> can process.
\<close>

definition well_behaved :: "('s, 'b) world \<Rightarrow> 'b \<Rightarrow> bool" where
  "well_behaved w b =
     (\<forall>s d. fst (model_call w (to_device w b) s) = Some d \<longrightarrow> usable d \<and> distinct (map fst d))"

text \<open>
  A concrete world for the examples: a batch is the outcome of the forward pass on it
  (\<open>None\<close> when the forward pass raises), the external state counts the optimizer
  steps, and the backend delivers to rank \<open>0\<close> the sum of this worker's buffer and
  those of the peers, whose loss dictionaries are \<open>ds\<close>; on another rank it leaves
  the buffer as it is.
\<close>

definition example_world :: "nat \<Rightarrow> nat \<Rightarrow> loss_dict list \<Rightarrow> (nat, loss_dict option) world" where
  "example_world ws rk ds =
     \<lparr>get_world_size = ws, get_rank = rk,
      dist_reduce = (\<lambda>t s. (if rk = 0 then sum_rows (t # map stacked ds) else t, s)),
      model_train = (\<lambda>s. s),
      model_call = (\<lambda>b s. (b, s)),
      to_device = (\<lambda>b. b),
      scheduler_step = (\<lambda>s. s),
      zero_grad = (\<lambda>s. s),
      backward = (\<lambda>l s. s),
      optimizer_step = Suc\<rparr>"

definition example_state :: "nat train_state" where
  "example_state =
     \<lparr>ext = 0, trace = [], arguments = [''iteration'' \<mapsto> 0], train_meters = [], test_meters = []\<rparr>"

definition example_store :: store where
  "example_store = \<lparr>tensors = [[1], [2]], dicts = [[(''b'', (0, 0)), (''a'', (1, 0))]]\<rparr>"

section \<open>Facts about \<^verbatim>\<open>reduce_loss_dict\<close>\<close>

lemma collect_keys:
  "set ks \<subseteq> fst ` set d \<Longrightarrow> collect d ks = Inr (ks, map (\<lambda>k. the (map_of d k)) ks)"
proof (induction ks)
  case Nil
  then show ?case by simp
next
  case (Cons k ks)
  then obtain v where "map_of d k = Some v"
    by (metis list.set_intros(1) subsetD map_of_eq_None_iff not_None_eq)
  with Cons show ?case by simp
qed

lemma loss_of_the: "k \<in> fst ` set d \<Longrightarrow> the (map_of d k) = loss_of d k"
  by (cases "map_of d k") (auto simp: loss_of_def map_of_eq_None_iff)

lemma collect_sorted: "collect d (sort (map fst d)) = Inr (sort (map fst d), stacked d)"
proof -
  have "set (sort (map fst d)) \<subseteq> fst ` set d" by simp
  then have "collect d (sort (map fst d))
      = Inr (sort (map fst d), map (\<lambda>k. the (map_of d k)) (sort (map fst d)))"
    by (rule collect_keys)
  moreover have "map (\<lambda>k. the (map_of d k)) (sort (map fst d)) = stacked d"
    unfolding stacked_def by (rule map_cong) (auto simp: loss_of_the)
  ultimately show ?thesis by simp
qed

lemma dict_set_fresh: "k \<notin> fst ` set d \<Longrightarrow> dict_set d k v = d @ [(k, v)]"
  by (induction d) auto

lemma foldl_dict_set:
  "distinct (map fst (d @ kvs)) \<Longrightarrow> foldl (\<lambda>d (k, v). dict_set d k v) d kvs = d @ kvs"
proof (induction kvs arbitrary: d)
  case Nil
  then show ?case by simp
next
  case (Cons kv kvs)
  obtain k v where kv: "kv = (k, v)" by (cases kv)
  from Cons.prems have "k \<notin> fst ` set d" by (auto simp: kv)
  then have "dict_set d k v = d @ [(k, v)]" by (rule dict_set_fresh)
  moreover from Cons.prems have "distinct (map fst ((d @ [(k, v)]) @ kvs))" by (simp add: kv)
  ultimately show ?case using Cons.IH [of "d @ [(k, v)]"] by (simp add: kv)
qed

lemma dict_of_items_distinct: "distinct (map fst kvs) \<Longrightarrow> dict_of_items kvs = kvs"
  using foldl_dict_set [of "[]" kvs] by (simp add: dict_of_items_def)

lemma length_in_place: "length (in_place buf new) = length buf"
  by (simp add: in_place_def)

lemma length_stacked: "length (stacked d) = length d"
  by (simp add: stacked_def)

lemma stacked_Nil_iff: "stacked d = [] \<longleftrightarrow> d = []"
  using length_stacked [of d] by (metis length_0_conv)

lemma dict_of_items_zip:
  "distinct ks \<Longrightarrow> length vs = length ks \<Longrightarrow> dict_of_items (zip ks vs) = zip ks vs"
  by (simp add: dict_of_items_distinct)

lemma reduce_loss_dict_single:
  "get_world_size w < 2 \<Longrightarrow> reduce_loss_dict w d p = (Inr d, p)"
  by (simp add: reduce_loss_dict_def)

lemma reduce_loss_dict_empty:
  "2 \<le> get_world_size w \<Longrightarrow> reduce_loss_dict w [] p = (Inl RuntimeError, p)"
  by (simp add: reduce_loss_dict_def torch_stack_def)


lemma reduce_loss_dict_multi:
  assumes "2 \<le> get_world_size w" and "d \<noteq> []" and "distinct (map fst d)"
  shows "reduce_loss_dict w d p =
    (Inr (zip (sort (map fst d))
            (if get_rank w = 0 then map (\<lambda>v. v / real (get_world_size w)) (post_reduce w d (ext p))
             else post_reduce w d (ext p))),
     p\<lparr>ext := snd (dist_reduce w (stacked d) (ext p)),
       trace := trace p @ [DistReduce (stacked d)]\<rparr>)"
proof -
  have ne: "stacked d \<noteq> []" using assms(2) by (simp add: stacked_Nil_iff)
  have dk: "distinct (sort (map fst d))" using assms(3) by simp
  show ?thesis using assms(1) ne
    by (simp add: reduce_loss_dict_def collect_sorted torch_stack_def post_reduce_def
        Let_def dict_of_items_zip [OF dk] length_in_place length_stacked split: prod.splits)
qed

lemma sum_rows_map:
  "sum_rows (map (\<lambda>d'. map (f d') ks) (d # ds)) = map (\<lambda>k. \<Sum>d'\<leftarrow>d # ds. f d' k) ks"
proof (induction ds arbitrary: d)
  case Nil
  then show ?case by simp
next
  case (Cons d2 ds)
  have "sum_rows (map (\<lambda>d'. map (f d') ks) (d # d2 # ds))
      = map2 (+) (map (f d) ks) (sum_rows (map (\<lambda>d'. map (f d') ks) (d2 # ds)))"
    by simp
  also have "\<dots> = map2 (+) (map (f d) ks) (map (\<lambda>k. \<Sum>d'\<leftarrow>d2 # ds. f d' k) ks)"
    by (simp only: Cons.IH)
  also have "\<dots> = map (\<lambda>k. \<Sum>d'\<leftarrow>d # d2 # ds. f d' k) ks"
    by (simp add: map2_map_map)
  finally show ?case .
qed

lemma stacked_all:
  assumes "\<forall>d' \<in> set ds. sort (map fst d') = sort (map fst d)"
  shows "map stacked (d # ds) = map (\<lambda>d'. map (loss_of d') (sort (map fst d))) (d # ds)"
  using assms by (simp add: stacked_def)


lemma sort_example_b_a: "sort (map fst [(''b'', 1::real), (''a'', 3)]) = [''a'', ''b'']"
  by simp

lemma sort_example_a_b: "sort (map fst [(''a'', 5::real), (''b'', 7)]) = [''a'', ''b'']"
  by simp

lemma stacked_example: "stacked [(''b'', 1), (''a'', 3)] = [3, 1]"
  by (simp add: stacked_def sort_example_b_a loss_of_def)


section \<open>Properties of \<^verbatim>\<open>reduce_loss_dict\<close>\<close>

text \<open>
  C1, as stated: for every loss dictionary, when \<open>world_size \<ge> 2\<close>,
  \<^verbatim>\<open>reduce_loss_dict\<close> stacks the values, performs the reduce-sum collective and
  returns, on rank \<open>0\<close>, the averages. On the empty dictionary \<^verbatim>\<open>torch.stack\<close>
  raises \<^verbatim>\<open>RuntimeError\<close> on line 28: nothing is returned, and the trace is as it
  was, so no collective has been issued.
\<close>

theorem rank0_average_counterexample:
  "reduce_loss_dict (example_world 2 0 [[]]) [] example_state
     = (Inl RuntimeError, example_state)"
proof -
  have "2 \<le> get_world_size (example_world 2 0 [[]])" by (simp add: example_world_def)
  then show ?thesis by (rule reduce_loss_dict_empty)
qed

text \<open>
  C1, amended: for every non-empty loss dictionary, when \<open>world_size \<ge> 2\<close>,
  \<^verbatim>\<open>reduce_loss_dict\<close> sorts the loss names, stacks the values in that order into one
  tensor, issues one reduce-sum collective on it, and on rank \<open>0\<close> divides the sums by
  \<open>world_size\<close>: the values returned on rank \<open>0\<close> are the averages over the workers
  of the input values. The workers are this one, with the non-empty dictionary \<open>d\<close>,
  and its peers with the dictionaries \<open>ds\<close> over the same names; the backend delivers
  to rank \<open>0\<close> the elementwise sum of the stacked tensors of all of them.
\<close>

theorem reduce_loss_dict_rank0_average:
  assumes "2 \<le> get_world_size w" and "get_rank w = 0"
    and "d \<noteq> []" and "distinct (map fst d)"
    and "\<forall>d' \<in> set ds. sort (map fst d') = sort (map fst d)"
    and "length (d # ds) = get_world_size w"
    and "fst (dist_reduce w (stacked d) (ext p)) = sum_rows (map stacked (d # ds))"
  shows "fst (reduce_loss_dict w d p) =
           Inr (map (\<lambda>k. (k, (\<Sum>d'\<leftarrow>d # ds. loss_of d' k) / real (get_world_size w)))
                  (sort (map fst d)))
         \<and> trace (snd (reduce_loss_dict w d p)) = trace p @ [DistReduce (stacked d)]"
proof -
  let ?ks = "sort (map fst d)"
  have rows: "map stacked (d # ds) = map (\<lambda>d'. map (loss_of d') ?ks) (d # ds)"
    using assms(5) by (rule stacked_all)
  have "sum_rows (map stacked (d # ds)) = map (\<lambda>k. \<Sum>d'\<leftarrow>d # ds. loss_of d' k) ?ks"
    by (simp only: rows sum_rows_map)
  then have rec: "fst (dist_reduce w (stacked d) (ext p))
      = map (\<lambda>k. \<Sum>d'\<leftarrow>d # ds. loss_of d' k) ?ks"
    using assms(7) by simp
  have "length (fst (dist_reduce w (stacked d) (ext p))) = length (stacked d)"
    by (simp add: rec length_stacked)
  then have "post_reduce w d (ext p) = map (\<lambda>k. \<Sum>d'\<leftarrow>d # ds. loss_of d' k) ?ks"
    by (simp add: post_reduce_def in_place_def rec)
  then have "zip ?ks (map (\<lambda>v. v / real (get_world_size w)) (post_reduce w d (ext p)))
      = map (\<lambda>k. (k, (\<Sum>d'\<leftarrow>d # ds. loss_of d' k) / real (get_world_size w))) ?ks"
    by (simp add: zip_map2 zip_same_conv_map)
  then show ?thesis
    using assms(2) by (simp add: reduce_loss_dict_multi [OF assms(1,3,4)])
qed

theorem reduce_loss_dict_rank0_average_witness:
  "fst (reduce_loss_dict (example_world 2 0 [[(''a'', 5), (''b'', 7)]])
          [(''b'', 1), (''a'', 3)] example_state)
     = Inr [(''a'', 4), (''b'', 4)]"
proof -
  let ?w = "example_world 2 0 [[(''a'', 5), (''b'', 7)]]"
  let ?d = "[(''b'', 1), (''a'', 3)] :: loss_dict"
  let ?ds = "[[(''a'', 5), (''b'', 7)]] :: loss_dict list"
  have h1: "2 \<le> get_world_size ?w" by (simp add: example_world_def)
  have h2: "get_rank ?w = 0" by (simp add: example_world_def)
  have h3: "?d \<noteq> []" by simp
  have h4: "distinct (map fst ?d)" by simp
  have h5: "\<forall>d' \<in> set ?ds. sort (map fst d') = sort (map fst ?d)"
    by (simp only: sort_example_b_a) (simp only: list.set ball_simps sort_example_a_b)
  have h6: "length (?d # ?ds) = get_world_size ?w" by (simp add: example_world_def)
  have h7: "fst (dist_reduce ?w (stacked ?d) (ext example_state)) = sum_rows (map stacked (?d # ?ds))"
    by (simp add: example_world_def)
  from reduce_loss_dict_rank0_average [OF h1 h2 h3 h4 h5 h6 h7]
  have "fst (reduce_loss_dict ?w ?d example_state) =
           Inr (map (\<lambda>k. (k, (\<Sum>d'\<leftarrow>?d # ?ds. loss_of d' k) / real (get_world_size ?w)))
                  (sort (map fst ?d)))" by (rule conjunct1)
  then show ?thesis by (simp only: sort_example_b_a) (simp add: example_world_def loss_of_def)
qed


text \<open>
  C2. When \<open>world_size < 2\<close>, \<^verbatim>\<open>reduce_loss_dict\<close> returns its input dictionary
  unchanged, and the process state with it: nothing is sorted, no collective is issued
  (the trace is the same), nothing is divided.
\<close>

theorem reduce_loss_dict_identity:
  "get_world_size w < 2 \<Longrightarrow> reduce_loss_dict w d p = (Inr d, p)"
  by (simp add: reduce_loss_dict_def)

theorem reduce_loss_dict_identity_witness:
  "reduce_loss_dict (example_world 1 0 []) [(''b'', 1), (''a'', 3)] example_state
     = (Inr [(''b'', 1), (''a'', 3)], example_state)"
proof -
  have "get_world_size (example_world 1 0 []) < 2" by (simp add: example_world_def)
  then show ?thesis by (rule reduce_loss_dict_identity)
qed

lemma example_rank0:
  "fst (reduce_loss_dict (example_world 2 0 [[(''a'', 5), (''b'', 7)]])
          [(''b'', 1), (''a'', 3)] example_state)
     = Inr [(''a'', 4), (''b'', 4)]"
proof -
  let ?w = "example_world 2 0 [[(''a'', 5), (''b'', 7)]]"
  let ?d = "[(''b'', 1), (''a'', 3)] :: loss_dict"
  have h1: "2 \<le> get_world_size ?w" by (simp add: example_world_def)
  have h3: "?d \<noteq> []" by simp
  have h4: "distinct (map fst ?d)" by simp
  have st: "stacked [(''a'', 5), (''b'', 7)] = [5, 7]"
    by (simp add: stacked_def sort_example_a_b loss_of_def)
  have pr: "post_reduce ?w ?d (ext example_state) = [8, 8]"
    by (simp add: post_reduce_def stacked_example example_world_def st in_place_def)
  show ?thesis
    by (simp only: reduce_loss_dict_multi [OF h1 h3 h4] pr sort_example_b_a)
       (simp add: example_world_def)
qed

lemma returned_names:
  assumes "fst (reduce_loss_dict w d p) = Inr r" and "distinct (map fst d)"
  shows "(2 \<le> get_world_size w \<longrightarrow> map fst r = sort (map fst d))
       \<and> (get_world_size w < 2 \<longrightarrow> map fst r = map fst d)"
proof (cases "2 \<le> get_world_size w")
  case True
  with assms(1) have ne: "d \<noteq> []" by (auto simp: reduce_loss_dict_empty)
  have "length (post_reduce w d (ext p)) = length (sort (map fst d))"
    by (simp add: post_reduce_def length_in_place length_stacked)
  then have "map fst r = sort (map fst d)"
    using assms(1) by (auto simp: reduce_loss_dict_multi [OF True ne assms(2)])
  with True show ?thesis by simp
next
  case False
  with assms(1) show ?thesis by (simp add: reduce_loss_dict_single)
qed

text \<open>
  C3, as stated: for every loss dictionary the key order of the returned mapping is the
  sorted order of the input's keys. With \<open>world_size = 1\<close> the input
  \<^verbatim>\<open>{"b": 1, "a": 3}\<close> comes back as it is, \<^verbatim>\<open>b\<close> before \<^verbatim>\<open>a\<close>.
\<close>

theorem key_order_counterexample:
  "fst (reduce_loss_dict (example_world 1 0 []) [(''b'', 1), (''a'', 3)] example_state)
     = Inr [(''b'', 1), (''a'', 3)]
   \<and> map fst [(''b'', 1::real), (''a'', 3)] \<noteq> sort (map fst [(''b'', 1::real), (''a'', 3)])"
proof -
  have "get_world_size (example_world 1 0 []) < 2" by (simp add: example_world_def)
  then have "fst (reduce_loss_dict (example_world 1 0 []) [(''b'', 1), (''a'', 3)] example_state)
     = Inr [(''b'', 1), (''a'', 3)]" by (simp add: reduce_loss_dict_single)
  moreover have "map fst [(''b'', 1::real), (''a'', 3)] \<noteq> sort (map fst [(''b'', 1::real), (''a'', 3)])"
    by (simp only: sort_example_b_a) simp
  ultimately show ?thesis by (rule conjI)
qed

text \<open>
  C3, amended: whenever \<^verbatim>\<open>reduce_loss_dict\<close> returns a mapping, its key order is the
  sorted order of the input's keys when \<open>world_size \<ge> 2\<close>, and the input's own key
  order when \<open>world_size < 2\<close>.
\<close>

theorem reduce_loss_dict_key_order:
  assumes "fst (reduce_loss_dict w d p) = Inr r" and "distinct (map fst d)"
  shows "(2 \<le> get_world_size w \<longrightarrow> map fst r = sort (map fst d))
       \<and> (get_world_size w < 2 \<longrightarrow> map fst r = map fst d)"
  using assms by (rule returned_names)

theorem reduce_loss_dict_key_order_witness:
  "map fst [(''a'', 4::real), (''b'', 4)] = sort (map fst [(''b'', 1::real), (''a'', 3)])"
proof -
  have "distinct (map fst [(''b'', 1::real), (''a'', 3)])" by simp
  from reduce_loss_dict_key_order [OF example_rank0 this]
  show ?thesis by (simp add: example_world_def)
qed

text \<open>
  C9. When \<open>world_size \<ge> 2\<close>, on a rank other than \<open>0\<close> the values returned
  are the contents of the buffer after the collective, paired with the sorted names and
  not divided by anything: such a worker does not receive the averages.
\<close>

theorem reduce_loss_dict_other_rank:
  assumes "2 \<le> get_world_size w" and "get_rank w \<noteq> 0"
    and "d \<noteq> []" and "distinct (map fst d)"
  shows "fst (reduce_loss_dict w d p) = Inr (zip (sort (map fst d)) (post_reduce w d (ext p)))"
  using assms by (simp add: reduce_loss_dict_multi)

theorem reduce_loss_dict_other_rank_witness:
  "fst (reduce_loss_dict (example_world 2 1 [[(''a'', 5), (''b'', 7)]])
          [(''b'', 1), (''a'', 3)] example_state)
     = Inr [(''a'', 3), (''b'', 1)]"
proof -
  let ?w = "example_world 2 1 [[(''a'', 5), (''b'', 7)]]"
  let ?d = "[(''b'', 1), (''a'', 3)] :: loss_dict"
  have h1: "2 \<le> get_world_size ?w" by (simp add: example_world_def)
  have h2: "get_rank ?w \<noteq> 0" by (simp add: example_world_def)
  have h3: "?d \<noteq> []" by simp
  have h4: "distinct (map fst ?d)" by simp
  have pr: "post_reduce ?w ?d (ext example_state) = [3, 1]"
    by (simp add: post_reduce_def stacked_example example_world_def in_place_def)
  show ?thesis
    by (simp only: reduce_loss_dict_other_rank [OF h1 h2 h3 h4] pr sort_example_b_a) simp
qed

section \<open>Facts about the loop bodies\<close>

lemma foldl_py_add_Tensor: "foldl py_add (Tensor a) vs = Tensor (a + sum_list vs)"
  by (induction vs arbitrary: a) (simp_all add: add.assoc)

lemma py_sum_nonempty: "vs \<noteq> [] \<Longrightarrow> py_sum vs = Tensor (sum_list vs)"
  by (cases vs) (simp_all add: py_sum_def foldl_py_add_Tensor)

lemma py_sum_Nil: "py_sum [] = PyInt 0"
  by (simp add: py_sum_def)

lemma reduce_loss_dict_form:
  "snd (reduce_loss_dict w d p) =
     p\<lparr>ext := ext (snd (reduce_loss_dict w d p)),
       trace := trace p @ (if 2 \<le> get_world_size w \<and> d \<noteq> [] then [DistReduce (stacked d)] else [])\<rparr>"
  by (simp add: reduce_loss_dict_def collect_sorted torch_stack_def stacked_Nil_iff Let_def
      split: prod.splits)

lemma reduce_loss_dict_Inr:
  assumes "fst (reduce_loss_dict w d p) = Inr red"
  shows "2 \<le> get_world_size w \<longrightarrow> d \<noteq> []"
  using assms by (auto simp: reduce_loss_dict_empty)

lemma reduce_loss_dict_names:
  assumes "distinct (map fst d)" and "fst (reduce_loss_dict w d p) = Inr red"
  shows "set (map fst red) = set (map fst d)"
proof -
  from returned_names [OF assms(2,1)]
  have "map fst red = sort (map fst d) \<or> map fst red = map fst d"
    by (cases "2 \<le> get_world_size w") auto
  then show ?thesis by (metis set_sort)
qed

lemma reduce_loss_dict_returns:
  assumes "d \<noteq> []" and "distinct (map fst d)"
  shows "\<exists>red. fst (reduce_loss_dict w d p) = Inr red"
proof (cases "2 \<le> get_world_size w")
  case True
  then show ?thesis by (simp add: reduce_loss_dict_multi [OF True assms])
next
  case False
  then show ?thesis by (simp add: reduce_loss_dict_single)
qed

lemma train_step_dropped:
  assumes "model_call w (to_device w b) (scheduler_step w (ext st)) = (None, s')"
  shows "train_step w m st (i, b) = Inr (after_forward st i s')"
  using assms by (simp add: train_step_def after_forward_def call_def emit_def Let_def)

lemma test_step_dropped:
  assumes "model_call w (to_device w b) (ext st) = (None, s')"
  shows "test_step w st b = Inr (after_test_forward st s')"
  using assms by (simp add: test_step_def after_test_forward_def call_def emit_def Let_def)

lemma ext_before_forward:
  "ext (emit ToDevice (call SchedulerStep f (st\<lparr>arguments := a\<rparr>))) = f (ext st)"
  by (simp add: call_def emit_def)

lemma state_after_forward:
  "(emit ModelCall (emit ToDevice (call SchedulerStep (scheduler_step w)
        (st\<lparr>arguments := (arguments st)(''iteration'' \<mapsto> i + 1)\<rparr>))))\<lparr>ext := s'\<rparr>
      = after_forward st i s'"
  by (simp add: after_forward_def call_def emit_def)

lemma train_step_success:
  assumes "model_call w (to_device w b) (scheduler_step w (ext st)) = (Some d, s')"
    and "reduce_loss_dict w d (after_forward st i s') = (Inr red, st5)"
    and "''loss'' \<notin> set (map fst red)" and "d \<noteq> []"
  shows "train_step w m st (i, b) = Inr (trained w m i d red st5)"
proof -
  have ps: "py_sum (map snd d) = Tensor (sum_list (map snd d))"
    using assms(4) by (simp add: py_sum_nonempty)
  have "train_step w m st (i, b) =
      Inr (let st9 = call OptimizerStep (optimizer_step w)
                  (call (Backward (sum_list (map snd d))) (backward w (sum_list (map snd d)))
                    (call ZeroGrad (zero_grad w)
                      (emit (MeterUpdate TrainMeters (py_sum (map snd red)) red)
                        (st5\<lparr>train_meters := train_meters st5 @ [(py_sum (map snd red), red)]\<rparr>))))
           in if (i + 1) mod 10 = 0 \<or> i + 1 = int m
              then emit (LogDebug (MetersMsg (train_meters st9))) st9 else st9)"
    using assms(3)
    by (simp only: train_step_def Let_def fst_conv snd_conv ext_before_forward assms(1)
        prod.case option.case state_after_forward assms(2) sum.case ps pynum.case
        meter_update_def if_False)
  also have "\<dots> = Inr (trained w m i d red st5)"
    by (simp add: trained_def call_def emit_def periodic_log_def Let_def)
  finally show ?thesis .
qed

lemma train_step_Inr:
  assumes "train_step w m st (i, b) = Inr st'"
    and "model_call w (to_device w b) (scheduler_step w (ext st)) = (r, s')"
  shows "(r = None \<and> st' = after_forward st i s')
       \<or> (\<exists>d red st5. r = Some d \<and> reduce_loss_dict w d (after_forward st i s') = (Inr red, st5)
            \<and> ''loss'' \<notin> set (map fst red) \<and> d \<noteq> [] \<and> st' = trained w m i d red st5)"
proof (cases r)
  case None
  with assms show ?thesis by (simp add: train_step_dropped)
next
  case (Some d)
  note fw = assms(2) [unfolded Some]
  obtain res st5 where red: "reduce_loss_dict w d (after_forward st i s') = (res, st5)"
    by (cases "reduce_loss_dict w d (after_forward st i s')")
  have unf: "train_step w m st (i, b) =
      (case res of Inl e \<Rightarrow> Inl e
       | Inr loss_dict_reduced \<Rightarrow>
           (case meter_update (py_sum (map snd loss_dict_reduced)) loss_dict_reduced (train_meters st5) of
              Inl e \<Rightarrow> Inl e
            | Inr ma \<Rightarrow>
                (case py_sum (map snd d) of
                   PyInt _ \<Rightarrow> Inl AttributeError
                 | Tensor l \<Rightarrow> Inr (let st9 = call OptimizerStep (optimizer_step w)
                      (call (Backward l) (backward w l)
                        (call ZeroGrad (zero_grad w)
                          (emit (MeterUpdate TrainMeters (py_sum (map snd loss_dict_reduced)) loss_dict_reduced)
                            (st5\<lparr>train_meters := ma\<rparr>))))
                    in if (i + 1) mod 10 = 0 \<or> i + 1 = int m
                       then emit (LogDebug (MetersMsg (train_meters st9))) st9 else st9))))"
    by (simp only: train_step_def Let_def fst_conv snd_conv ext_before_forward fw
        prod.case option.case state_after_forward red)
  from assms(1) unf obtain red' where res: "res = Inr red'"
    by (cases res) simp_all
  from assms(1) unf res have nl: "''loss'' \<notin> set (map fst red')"
    by (auto simp: meter_update_def split: if_splits)
  from assms(1) unf res nl have ne: "d \<noteq> []"
    by (auto simp: meter_update_def py_sum_Nil)
  from train_step_success [OF fw red [unfolded res] nl ne] assms(1)
  have "st' = trained w m i d red' st5" by simp
  with Some red res nl ne show ?thesis by simp
qed

lemma state_after_test_forward:
  "(emit ModelCall (emit ToDevice st))\<lparr>ext := s'\<rparr> = after_test_forward st s'"
  by (simp add: after_test_forward_def emit_def)

lemma ext_emit: "ext (emit e st) = ext st"
  by (simp add: emit_def)

lemma test_step_success:
  assumes "model_call w (to_device w b) (ext st) = (Some d, s')"
    and "reduce_loss_dict w d (after_test_forward st s') = (Inr red, st3)"
    and "''loss'' \<notin> set (map fst red)"
  shows "test_step w st b = Inr (tested red st3)"
proof -
  have "test_step w st b =
      Inr (emit (MeterUpdate TestMeters (py_sum (map snd red)) red)
             (st3\<lparr>test_meters := test_meters st3 @ [(py_sum (map snd red), red)]\<rparr>))"
    using assms(3)
    by (simp only: test_step_def Let_def fst_conv snd_conv ext_emit assms(1)
        prod.case option.case state_after_test_forward assms(2) sum.case
        meter_update_def if_False)
  also have "\<dots> = Inr (tested red st3)"
    by (simp add: tested_def emit_def)
  finally show ?thesis .
qed

lemma test_step_Inr:
  assumes "test_step w st b = Inr st'"
    and "model_call w (to_device w b) (ext st) = (r, s')"
  shows "(r = None \<and> st' = after_test_forward st s')
       \<or> (\<exists>d red st3. r = Some d \<and> reduce_loss_dict w d (after_test_forward st s') = (Inr red, st3)
            \<and> ''loss'' \<notin> set (map fst red) \<and> st' = tested red st3)"
proof (cases r)
  case None
  with assms show ?thesis by (simp add: test_step_dropped)
next
  case (Some d)
  note fw = assms(2) [unfolded Some]
  obtain res st3 where red: "reduce_loss_dict w d (after_test_forward st s') = (res, st3)"
    by (cases "reduce_loss_dict w d (after_test_forward st s')")
  have unf: "test_step w st b =
      (case res of Inl e \<Rightarrow> Inl e
       | Inr reduced \<Rightarrow>
           (case meter_update (py_sum (map snd reduced)) reduced (test_meters st3) of
              Inl e \<Rightarrow> Inl e
            | Inr ma \<Rightarrow> Inr (emit (MeterUpdate TestMeters (py_sum (map snd reduced)) reduced)
                               (st3\<lparr>test_meters := ma\<rparr>))))"
    by (simp only: test_step_def Let_def fst_conv snd_conv ext_emit fw
        prod.case option.case state_after_test_forward red)
  from assms(1) unf obtain red' where res: "res = Inr red'"
    by (cases res) simp_all
  from assms(1) unf res have nl: "''loss'' \<notin> set (map fst red')"
    by (auto simp: meter_update_def split: if_splits)
  from test_step_success [OF fw red [unfolded res] nl] assms(1)
  have "st' = tested red' st3" by simp
  with Some red res nl show ?thesis by simp
qed

lemma reduce_loss_dict_frame:
  fixes p :: "'s train_state"
  assumes "reduce_loss_dict w d p = (res, p')"
  shows "arguments p' = arguments p" and "train_meters p' = train_meters p"
    and "test_meters p' = test_meters p"
    and "trace p' = trace p @ (if 2 \<le> get_world_size w \<and> d \<noteq> [] then [DistReduce (stacked d)] else [])"
proof -
  from assms have "p' = snd (reduce_loss_dict w d p)" by simp
  then have eq: "p' = p\<lparr>ext := ext p',
       trace := trace p @ (if 2 \<le> get_world_size w \<and> d \<noteq> [] then [DistReduce (stacked d)] else [])\<rparr>"
    using reduce_loss_dict_form [of w d p] by simp
  show "arguments p' = arguments p" by (subst eq) simp
  show "train_meters p' = train_meters p" by (subst eq) simp
  show "test_meters p' = test_meters p" by (subst eq) simp
  show "trace p' = trace p @ (if 2 \<le> get_world_size w \<and> d \<noteq> [] then [DistReduce (stacked d)] else [])"
    by (subst eq) simp
qed

lemma updates_of_append: "updates_of m (xs @ ys) = updates_of m xs @ updates_of m ys"
  by (induction m xs rule: updates_of.induct) simp_all

lemma reduce_calls_append: "reduce_calls (xs @ ys) = reduce_calls xs + reduce_calls ys"
  by (simp add: reduce_calls_def)

lemma updates_of_periodic_log: "updates_of which (periodic_log m i x) = []"
  by (simp add: periodic_log_def)

lemma reduce_calls_periodic_log: "reduce_calls (periodic_log m i x) = 0"
  by (simp add: periodic_log_def reduce_calls_def)

lemma train_step_arguments:
  assumes "train_step w m st (i, b) = Inr st'"
  shows "arguments st' = (arguments st)(''iteration'' \<mapsto> i + 1)"
proof -
  obtain r s' where fw: "model_call w (to_device w b) (scheduler_step w (ext st)) = (r, s')"
    by (cases "model_call w (to_device w b) (scheduler_step w (ext st))")
  from train_step_Inr [OF assms fw] show ?thesis
  proof (elim disjE conjE exE)
    assume "st' = after_forward st i s'"
    then show ?thesis by (simp add: after_forward_def)
  next
    fix d red st5
    assume red: "reduce_loss_dict w d (after_forward st i s') = (Inr red, st5)"
      and st': "st' = trained w m i d red st5"
    from reduce_loss_dict_frame(1) [OF red] st' show ?thesis
      by (simp add: trained_def Let_def after_forward_def)
  qed
qed

lemma train_step_trace_prefix:
  assumes "train_step w m st (i, b) = Inr st'"
  shows "\<exists>evs. trace st' = trace st @ [SchedulerStep, ToDevice, ModelCall] @ evs"
proof -
  obtain r s' where fw: "model_call w (to_device w b) (scheduler_step w (ext st)) = (r, s')"
    by (cases "model_call w (to_device w b) (scheduler_step w (ext st))")
  from train_step_Inr [OF assms fw] show ?thesis
  proof (elim disjE conjE exE)
    assume "st' = after_forward st i s'"
    then show ?thesis by (simp add: after_forward_def)
  next
    fix d red st5
    assume red: "reduce_loss_dict w d (after_forward st i s') = (Inr red, st5)"
      and st': "st' = trained w m i d red st5"
    from reduce_loss_dict_frame(4) [OF red] st' show ?thesis
      by (simp add: trained_def Let_def after_forward_def)
  qed
qed

lemma train_loop_iteration:
  assumes "train_loop w m st (enumerate_py n bs) = Inr st'"
  shows "arguments st' ''iteration'' =
           (if bs = [] then arguments st ''iteration'' else Some (n + int (length bs)))"
  using assms
proof (induction bs arbitrary: st n)
  case Nil
  then show ?case by simp
next
  case (Cons b bs)
  from Cons.prems obtain st1 where step: "train_step w m st (n, b) = Inr st1"
    and rest: "train_loop w m st1 (enumerate_py (n + 1) bs) = Inr st'"
    by (auto split: sum.splits)
  from train_step_arguments [OF step] have "arguments st1 ''iteration'' = Some (n + 1)"
    by simp
  with Cons.IH [OF rest] show ?case by simp
qed

lemma train_step_usable:
  assumes "model_call w (to_device w b) (scheduler_step w (ext st)) = (Some d, s')"
    and "usable d" and "distinct (map fst d)"
  shows "\<exists>red st5.
      reduce_loss_dict w d (after_forward st i s') = (Inr red, st5)
    \<and> train_step w m st (i, b) = Inr (trained w m i d red st5)
    \<and> trace (trained w m i d red st5) =
        trace st5 @ [MeterUpdate TrainMeters (py_sum (map snd red)) red, ZeroGrad,
                     Backward (sum_list (map snd d)), OptimizerStep]
          @ periodic_log m (i + 1) (train_meters (trained w m i d red st5))
    \<and> ext (trained w m i d red st5) =
        optimizer_step w (backward w (sum_list (map snd d)) (zero_grad w (ext st5)))
    \<and> train_meters (trained w m i d red st5) = train_meters st @ [(py_sum (map snd red), red)]"
proof -
  from assms(2) have ne: "d \<noteq> []" and nl: "''loss'' \<notin> set (map fst d)"
    by (simp_all add: usable_def)
  from reduce_loss_dict_returns [OF ne assms(3)]
  obtain red where r: "fst (reduce_loss_dict w d (after_forward st i s')) = Inr red" by blast
  then obtain st5 where red: "reduce_loss_dict w d (after_forward st i s') = (Inr red, st5)"
    by (cases "reduce_loss_dict w d (after_forward st i s')") simp
  from reduce_loss_dict_names [OF assms(3) r] nl have nl': "''loss'' \<notin> set (map fst red)"
    by simp
  have tm: "train_meters st5 = train_meters st"
    using reduce_loss_dict_frame(2) [OF red] by (simp add: after_forward_def)
  from train_step_success [OF assms(1) red nl' ne] red tm show ?thesis
    by (simp add: trained_def Let_def)
qed

lemma example_forward:
  "model_call (example_world ws rk ds) (to_device (example_world ws rk ds) b)
     (scheduler_step (example_world ws rk ds) s) = (b, s)"
  by (simp add: example_world_def)

lemma example_test_forward:
  "model_call (example_world ws rk ds) (to_device (example_world ws rk ds) b) s = (b, s)"
  by (simp add: example_world_def)

lemma example_single: "get_world_size (example_world 1 rk ds) < 2"
  by (simp add: example_world_def)

lemma example_train_step:
  "train_step (example_world 1 0 []) m st (i, Some [(''b'', 1), (''a'', 3)])
     = Inr (trained (example_world 1 0 []) m i [(''b'', 1), (''a'', 3)] [(''b'', 1), (''a'', 3)]
             (after_forward st i (ext st)))"
proof (rule train_step_success)
  show "model_call (example_world 1 0 []) (to_device (example_world 1 0 []) (Some [(''b'', 1), (''a'', 3)]))
      (scheduler_step (example_world 1 0 []) (ext st)) = (Some [(''b'', 1), (''a'', 3)], ext st)"
    by (rule example_forward)
  show "reduce_loss_dict (example_world 1 0 []) [(''b'', 1), (''a'', 3)] (after_forward st i (ext st))
      = (Inr [(''b'', 1), (''a'', 3)], after_forward st i (ext st))"
    using example_single by (rule reduce_loss_dict_single)
  show "''loss'' \<notin> set (map fst [(''b'', 1::real), (''a'', 3)])" by simp
  show "[(''b'', 1::real), (''a'', 3)] \<noteq> []" by simp
qed

lemma example_run:
  "train_loop (example_world 1 0 []) 2 example_state
      (enumerate_py 0 [None, Some [(''b'', 1), (''a'', 3)]])
    = Inr (trained (example_world 1 0 []) 2 1 [(''b'', 1), (''a'', 3)] [(''b'', 1), (''a'', 3)]
             (after_forward (after_forward example_state 0 0) 1 0))"
proof -
  have d: "train_step (example_world 1 0 []) 2 example_state (0, None)
      = Inr (after_forward example_state 0 0)"
    using example_forward [of 1 0 "[]" None "ext example_state"]
    by (simp add: train_step_dropped example_state_def)
  have e: "ext (after_forward example_state 0 0) = 0" by (simp add: after_forward_def)
  show ?thesis
    using example_train_step [of 2 "after_forward example_state 0 0" 1]
    by (simp add: d e del: One_nat_def)
qed

section \<open>Properties of \<^verbatim>\<open>do_train\<close>\<close>

text \<open>
  C4. An exception raised by the forward pass on a batch is caught, in the training loop
  and in the test loop alike, and the batch is dropped: the iteration ends normally, the
  loop goes on with the remaining batches, neither logger is updated and nothing is logged
  (the trace gains only the calls made before and including the forward pass). In the
  training loop the iteration index and the scheduler have been advanced before the
  forward pass; nothing else keeps count of the batch.
\<close>

theorem forward_exception_skips_batch:
  "(model_call w (to_device w b) (scheduler_step w (ext st)) = (None, s') \<longrightarrow>
      train_step w m st (i, b) = Inr (after_forward st i s')
      \<and> train_loop w m st ((i, b) # rest) = train_loop w m (after_forward st i s') rest
      \<and> train_meters (after_forward st i s') = train_meters st
      \<and> test_meters (after_forward st i s') = test_meters st
      \<and> trace (after_forward st i s') = trace st @ [SchedulerStep, ToDevice, ModelCall])
   \<and> (model_call w (to_device w b) (ext st) = (None, s') \<longrightarrow>
      test_step w st b = Inr (after_test_forward st s')
      \<and> test_loop w st (b # rest') = test_loop w (after_test_forward st s') rest'
      \<and> train_meters (after_test_forward st s') = train_meters st
      \<and> test_meters (after_test_forward st s') = test_meters st
      \<and> arguments (after_test_forward st s') = arguments st
      \<and> trace (after_test_forward st s') = trace st @ [ToDevice, ModelCall])"
  by (simp add: train_step_dropped test_step_dropped after_forward_def after_test_forward_def)

theorem forward_exception_skips_batch_witness:
  "train_step (example_world 1 0 []) 1 example_state (0, None)
     = Inr (after_forward example_state 0 0)
   \<and> test_step (example_world 1 0 []) example_state None
     = Inr (after_test_forward example_state 0)"
proof -
  have h1: "model_call (example_world 1 0 []) (to_device (example_world 1 0 []) None)
      (scheduler_step (example_world 1 0 []) (ext example_state)) = (None, 0)"
    by (simp add: example_world_def example_state_def)
  have h2: "model_call (example_world 1 0 []) (to_device (example_world 1 0 []) None)
      (ext example_state) = (None, 0)"
    by (simp add: example_world_def example_state_def)
  from forward_exception_skips_batch [of "example_world 1 0 []" None example_state 0 1 0 "[]" "[]"]
    h1 h2 show ?thesis by simp
qed

text \<open>
  A forward pass that returns the empty dictionary makes the iteration raise:
  \<^verbatim>\<open>torch.stack\<close> refuses the empty list when there are several workers; otherwise
  \<^verbatim>\<open>sum\<close> is the integer \<open>0\<close>, which has no \<^verbatim>\<open>backward\<close>. A loss named
  \<^verbatim>\<open>loss\<close> makes the update of the logger raise.
\<close>

lemma train_step_empty_dict:
  assumes "model_call w (to_device w b) (scheduler_step w (ext st)) = (Some [], s')"
  shows "train_step w m st (i, b) =
           (if 2 \<le> get_world_size w then Inl RuntimeError else Inl AttributeError)"
proof (cases "2 \<le> get_world_size w")
  case True
  then show ?thesis
    by (simp only: train_step_def Let_def fst_conv snd_conv ext_before_forward assms
        prod.case option.case state_after_forward reduce_loss_dict_empty sum.case if_True)
next
  case False
  then have "reduce_loss_dict w [] (after_forward st i s') = (Inr [], after_forward st i s')"
    by (simp add: reduce_loss_dict_single)
  with False show ?thesis
    by (simp only: train_step_def Let_def fst_conv snd_conv ext_before_forward assms
        prod.case option.case state_after_forward sum.case)
       (simp add: meter_update_def py_sum_Nil)
qed

lemma train_step_loss_key:
  assumes "model_call w (to_device w b) (scheduler_step w (ext st)) = (Some d, s')"
    and "get_world_size w < 2" and "''loss'' \<in> set (map fst d)"
  shows "train_step w m st (i, b) = Inl TypeError"
proof -
  have "reduce_loss_dict w d (after_forward st i s') = (Inr d, after_forward st i s')"
    using assms(2) by (rule reduce_loss_dict_single)
  with assms(3) show ?thesis
    by (simp only: train_step_def Let_def fst_conv snd_conv ext_before_forward assms(1)
        prod.case option.case state_after_forward sum.case meter_update_def if_True)
qed

text \<open>
  C6, as stated: for every training batch whose forward pass succeeds, \<^verbatim>\<open>do_train\<close>
  performs the optimization step. A forward pass that returns \<^verbatim>\<open>{}\<close> ends the
  iteration with \<^verbatim>\<open>AttributeError\<close> on line 75, and one that returns
  \<^verbatim>\<open>{"loss": 1, "a": 3}\<close> ends it with \<^verbatim>\<open>TypeError\<close> on line 72; in both the
  optimizer never steps.
\<close>

theorem optimization_step_counterexample:
  "train_step (example_world 1 0 []) 1 example_state (0, Some []) = Inl AttributeError
   \<and> train_step (example_world 1 0 []) 1 example_state (0, Some [(''loss'', 1), (''a'', 3)])
       = Inl TypeError"
proof
  have "train_step (example_world 1 0 []) 1 example_state (0, Some []) =
      (if 2 \<le> get_world_size (example_world 1 0 []) then Inl RuntimeError else Inl AttributeError)"
    by (rule train_step_empty_dict) (rule example_forward)
  then show "train_step (example_world 1 0 []) 1 example_state (0, Some []) = Inl AttributeError"
    by (simp add: example_world_def)
  show "train_step (example_world 1 0 []) 1 example_state (0, Some [(''loss'', 1), (''a'', 3)])
       = Inl TypeError"
  proof (rule train_step_loss_key)
    show "model_call (example_world 1 0 []) (to_device (example_world 1 0 [])
        (Some [(''loss'', 1), (''a'', 3)])) (scheduler_step (example_world 1 0 []) (ext example_state))
        = (Some [(''loss'', 1), (''a'', 3)], ext example_state)"
      by (rule example_forward)
    show "get_world_size (example_world 1 0 []) < 2" by (rule example_single)
    show "''loss'' \<in> set (map fst [(''loss'', 1::real), (''a'', 3)])" by simp
  qed
qed

text \<open>
  C6, amended: for every training batch whose forward pass returns a loss dictionary
  \<open>d\<close> with at least one loss and none of them named \<^verbatim>\<open>loss\<close>, the iteration
  completes and performs the optimization step: after the reduced losses \<open>red\<close> and
  their sum have gone to the training logger, the gradients are zeroed, the sum of the
  values of \<open>d\<close> itself, not of the reduced ones, is backpropagated, and the optimizer
  steps, in this order. The reduced losses appear in the logger update only.
\<close>

theorem train_step_optimizes:
  assumes "model_call w (to_device w b) (scheduler_step w (ext st)) = (Some d, s')"
    and "usable d" and "distinct (map fst d)"
  shows "\<exists>red st5.
      reduce_loss_dict w d (after_forward st i s') = (Inr red, st5)
    \<and> train_step w m st (i, b) = Inr (trained w m i d red st5)
    \<and> trace (trained w m i d red st5) =
        trace st5 @ [MeterUpdate TrainMeters (py_sum (map snd red)) red, ZeroGrad,
                     Backward (sum_list (map snd d)), OptimizerStep]
          @ periodic_log m (i + 1) (train_meters (trained w m i d red st5))
    \<and> ext (trained w m i d red st5) =
        optimizer_step w (backward w (sum_list (map snd d)) (zero_grad w (ext st5)))
    \<and> train_meters (trained w m i d red st5) = train_meters st @ [(py_sum (map snd red), red)]"
  using assms by (rule train_step_usable)

theorem train_step_optimizes_witness:
  "map_sum id trace (train_step (example_world 1 0 []) 1 example_state
       (0, Some [(''b'', 1), (''a'', 3)]))
     = Inr [SchedulerStep, ToDevice, ModelCall,
            MeterUpdate TrainMeters (Tensor 4) [(''b'', 1), (''a'', 3)],
            ZeroGrad, Backward 4, OptimizerStep,
            LogDebug (MetersMsg [(Tensor 4, [(''b'', 1), (''a'', 3)])])]"
proof -
  let ?w = "example_world 1 0 []"
  let ?d = "[(''b'', 1), (''a'', 3)] :: loss_dict"
  have h1: "model_call ?w (to_device ?w (Some ?d)) (scheduler_step ?w (ext example_state))
      = (Some ?d, 0)"
    by (simp add: example_world_def example_state_def)
  have h2: "usable ?d" by (simp add: usable_def)
  have h3: "distinct (map fst ?d)" by simp
  from train_step_optimizes [OF h1 h2 h3, of 0 1]
  obtain red st5 where red: "reduce_loss_dict ?w ?d (after_forward example_state 0 0) = (Inr red, st5)"
    and step: "train_step ?w 1 example_state (0, Some ?d) = Inr (trained ?w 1 0 ?d red st5)"
    by blast
  from red have "red = ?d" and "st5 = after_forward example_state 0 0"
    by (simp_all add: reduce_loss_dict_single [OF example_single] del: One_nat_def)
  with step show ?thesis
    by (simp add: trained_def after_forward_def example_state_def periodic_log_def
        py_sum_nonempty Let_def)
qed

section \<open>Facts about the loops\<close>

lemma reduce_calls_single: "reduce_calls [DistReduce t] = 1"
  by (simp add: reduce_calls_def)

lemma reduce_calls_Nil: "reduce_calls [] = 0"
  by (simp add: reduce_calls_def)

lemma train_step_events:
  assumes "train_step w m st (i, b) = Inr st'"
  shows "\<exists>evs. trace st' = trace st @ evs
      \<and> train_meters st' = train_meters st @ updates_of TrainMeters evs
      \<and> updates_of TestMeters evs = []
      \<and> test_meters st' = test_meters st
      \<and> reduce_calls evs =
          (if fst (model_call w (to_device w b) (scheduler_step w (ext st))) \<noteq> None
              \<and> 2 \<le> get_world_size w then 1 else 0)"
proof -
  obtain r s' where fw: "model_call w (to_device w b) (scheduler_step w (ext st)) = (r, s')"
    by (cases "model_call w (to_device w b) (scheduler_step w (ext st))")
  from train_step_Inr [OF assms fw] show ?thesis
  proof (elim disjE conjE exE)
    assume "r = None" and "st' = after_forward st i s'"
    then show ?thesis
      by (intro exI [of _ "[SchedulerStep, ToDevice, ModelCall]"])
         (simp add: after_forward_def fw reduce_calls_def)
  next
    fix d red st5
    assume r: "r = Some d"
      and red: "reduce_loss_dict w d (after_forward st i s') = (Inr red, st5)"
      and ne: "d \<noteq> []" and st': "st' = trained w m i d red st5"
    let ?rs = "if 2 \<le> get_world_size w \<and> d \<noteq> [] then [DistReduce (stacked d)] else []"
    let ?evs = "[SchedulerStep, ToDevice, ModelCall] @ ?rs
        @ [MeterUpdate TrainMeters (py_sum (map snd red)) red, ZeroGrad,
           Backward (sum_list (map snd d)), OptimizerStep]
        @ periodic_log m (i + 1) (train_meters st5 @ [(py_sum (map snd red), red)])"
    note fr = reduce_loss_dict_frame [OF red]
    have t: "trace st' = trace st @ ?evs"
      by (simp add: st' trained_def Let_def fr(4) after_forward_def)
    have tm: "train_meters st' = train_meters st @ updates_of TrainMeters ?evs"
      by (simp add: st' trained_def Let_def fr(2) after_forward_def updates_of_append
          updates_of_periodic_log)
    have te: "updates_of TestMeters ?evs = []"
      by (simp add: updates_of_append updates_of_periodic_log)
    have tt: "test_meters st' = test_meters st"
      by (simp add: st' trained_def Let_def fr(3) after_forward_def)
    have rc: "reduce_calls ?evs = (if 2 \<le> get_world_size w then 1 else 0)"
      using ne by (simp add: reduce_calls_def periodic_log_def)
    from t tm te tt rc show ?thesis
      by (intro exI [of _ ?evs]) (simp only: fw r fst_conv, simp)
  qed
qed

lemma test_step_events:
  assumes "test_step w st b = Inr st'"
  shows "\<exists>evs. trace st' = trace st @ evs
      \<and> test_meters st' = test_meters st @ updates_of TestMeters evs
      \<and> updates_of TrainMeters evs = []
      \<and> train_meters st' = train_meters st
      \<and> arguments st' = arguments st
      \<and> reduce_calls evs =
          (if fst (model_call w (to_device w b) (ext st)) \<noteq> None
              \<and> 2 \<le> get_world_size w then 1 else 0)"
proof -
  obtain r s' where fw: "model_call w (to_device w b) (ext st) = (r, s')"
    by (cases "model_call w (to_device w b) (ext st)")
  from test_step_Inr [OF assms fw] show ?thesis
  proof (elim disjE conjE exE)
    assume "r = None" and "st' = after_test_forward st s'"
    then show ?thesis
      by (intro exI [of _ "[ToDevice, ModelCall]"])
         (simp add: after_test_forward_def fw reduce_calls_def)
  next
    fix d red st3
    assume r: "r = Some d"
      and red: "reduce_loss_dict w d (after_test_forward st s') = (Inr red, st3)"
      and st': "st' = tested red st3"
    from red have "fst (reduce_loss_dict w d (after_test_forward st s')) = Inr red" by simp
    from reduce_loss_dict_Inr [OF this] have ne: "2 \<le> get_world_size w \<longrightarrow> d \<noteq> []" .
    let ?rs = "if 2 \<le> get_world_size w \<and> d \<noteq> [] then [DistReduce (stacked d)] else []"
    let ?evs = "[ToDevice, ModelCall] @ ?rs @ [MeterUpdate TestMeters (py_sum (map snd red)) red]"
    note fr = reduce_loss_dict_frame [OF red]
    have t: "trace st' = trace st @ ?evs"
      by (simp add: st' tested_def fr(4) after_test_forward_def)
    have tm: "test_meters st' = test_meters st @ updates_of TestMeters ?evs"
      by (simp add: st' tested_def fr(3) after_test_forward_def updates_of_append)
    have te: "updates_of TrainMeters ?evs = []"
      by (simp add: updates_of_append)
    have tt: "train_meters st' = train_meters st"
      by (simp add: st' tested_def fr(2) after_test_forward_def)
    have ar: "arguments st' = arguments st"
      by (simp add: st' tested_def fr(1) after_test_forward_def)
    have rc: "reduce_calls ?evs = (if 2 \<le> get_world_size w then 1 else 0)"
      using ne by (simp add: reduce_calls_def)
    from t tm te tt ar rc show ?thesis
      by (intro exI [of _ ?evs]) (simp only: fw r fst_conv, simp)
  qed
qed

lemma test_step_usable:
  assumes "model_call w (to_device w b) (ext st) = (Some d, s')"
    and "usable d" and "distinct (map fst d)"
  shows "\<exists>red st3. reduce_loss_dict w d (after_test_forward st s') = (Inr red, st3)
    \<and> test_step w st b = Inr (tested red st3)"
proof -
  from assms(2) have ne: "d \<noteq> []" and nl: "''loss'' \<notin> set (map fst d)"
    by (simp_all add: usable_def)
  from reduce_loss_dict_returns [OF ne assms(3)]
  obtain red where r: "fst (reduce_loss_dict w d (after_test_forward st s')) = Inr red" by blast
  then obtain st3 where red: "reduce_loss_dict w d (after_test_forward st s') = (Inr red, st3)"
    by (cases "reduce_loss_dict w d (after_test_forward st s')") simp
  from reduce_loss_dict_names [OF assms(3) r] nl have nl': "''loss'' \<notin> set (map fst red)"
    by simp
  from test_step_success [OF assms(1) red nl'] red show ?thesis by blast
qed

lemma train_loop_events:
  assumes "train_loop w m st ibs = Inr st'"
  shows "\<exists>evs. trace st' = trace st @ evs
      \<and> train_meters st' = train_meters st @ updates_of TrainMeters evs
      \<and> updates_of TestMeters evs = []
      \<and> test_meters st' = test_meters st"
  using assms
proof (induction ibs arbitrary: st)
  case Nil
  then show ?case by simp
next
  case (Cons ib ibs)
  obtain i b where ib: "ib = (i, b)" by (cases ib)
  from Cons.prems obtain st1 where step: "train_step w m st (i, b) = Inr st1"
    and rest: "train_loop w m st1 ibs = Inr st'"
    by (auto simp: ib split: sum.splits)
  from train_step_events [OF step] obtain e1 where e1: "trace st1 = trace st @ e1"
    "train_meters st1 = train_meters st @ updates_of TrainMeters e1"
    "updates_of TestMeters e1 = []" "test_meters st1 = test_meters st" by blast
  from Cons.IH [OF rest] obtain e2 where e2: "trace st' = trace st1 @ e2"
    "train_meters st' = train_meters st1 @ updates_of TrainMeters e2"
    "updates_of TestMeters e2 = []" "test_meters st' = test_meters st1" by blast
  from e1 e2 show ?case
    by (intro exI [of _ "e1 @ e2"]) (simp add: updates_of_append)
qed

lemma test_loop_events:
  assumes "test_loop w st bs = Inr st'"
  shows "\<exists>evs. trace st' = trace st @ evs
      \<and> test_meters st' = test_meters st @ updates_of TestMeters evs
      \<and> updates_of TrainMeters evs = []
      \<and> train_meters st' = train_meters st
      \<and> arguments st' = arguments st"
  using assms
proof (induction bs arbitrary: st)
  case Nil
  then show ?case by simp
next
  case (Cons b bs)
  from Cons.prems obtain st1 where step: "test_step w st b = Inr st1"
    and rest: "test_loop w st1 bs = Inr st'"
    by (auto split: sum.splits)
  from test_step_events [OF step] obtain e1 where e1: "trace st1 = trace st @ e1"
    "test_meters st1 = test_meters st @ updates_of TestMeters e1"
    "updates_of TrainMeters e1 = []" "train_meters st1 = train_meters st"
    "arguments st1 = arguments st" by blast
  from Cons.IH [OF rest] obtain e2 where e2: "trace st' = trace st1 @ e2"
    "test_meters st' = test_meters st1 @ updates_of TestMeters e2"
    "updates_of TrainMeters e2 = []" "train_meters st' = train_meters st1"
    "arguments st' = arguments st1" by blast
  from e1 e2 show ?case
    by (intro exI [of _ "e1 @ e2"]) (simp add: updates_of_append)
qed

lemma train_step_total:
  assumes "well_behaved w b"
  shows "\<exists>st'. train_step w m st (i, b) = Inr st'"
proof -
  obtain r s' where fw: "model_call w (to_device w b) (scheduler_step w (ext st)) = (r, s')"
    by (cases "model_call w (to_device w b) (scheduler_step w (ext st))")
  show ?thesis
  proof (cases r)
    case None
    with fw show ?thesis by (simp add: train_step_dropped)
  next
    case (Some d)
    with fw assms have "usable d" and "distinct (map fst d)"
      unfolding well_behaved_def by (metis fst_conv)+
    from train_step_usable [OF fw [unfolded Some] this] show ?thesis by blast
  qed
qed

lemma test_step_total:
  assumes "well_behaved w b"
  shows "\<exists>st'. test_step w st b = Inr st'"
proof -
  obtain r s' where fw: "model_call w (to_device w b) (ext st) = (r, s')"
    by (cases "model_call w (to_device w b) (ext st)")
  show ?thesis
  proof (cases r)
    case None
    with fw show ?thesis by (simp add: test_step_dropped)
  next
    case (Some d)
    with fw assms have "usable d" and "distinct (map fst d)"
      unfolding well_behaved_def by (metis fst_conv)+
    from test_step_usable [OF fw [unfolded Some] this] show ?thesis by blast
  qed
qed

lemma train_loop_total:
  assumes "\<forall>b \<in> set bs. well_behaved w b"
  shows "\<exists>st'. train_loop w m st (enumerate_py n bs) = Inr st'"
  using assms
proof (induction bs arbitrary: st n)
  case Nil
  show ?case by simp
next
  case (Cons b bs)
  then have "well_behaved w b" by simp
  from train_step_total [OF this] obtain st1 where "train_step w m st (n, b) = Inr st1"
    by blast
  moreover from Cons.prems have "\<forall>b \<in> set bs. well_behaved w b" by simp
  from Cons.IH [OF this, of st1 "n + 1"]
  obtain st' where "train_loop w m st1 (enumerate_py (n + 1) bs) = Inr st'" by blast
  ultimately show ?case by simp
qed

lemma test_loop_total:
  assumes "\<forall>b \<in> set bs. well_behaved w b"
  shows "\<exists>st'. test_loop w st bs = Inr st'"
  using assms
proof (induction bs arbitrary: st)
  case Nil
  show ?case by simp
next
  case (Cons b bs)
  then have "well_behaved w b" by simp
  from test_step_total [OF this] obtain st1 where "test_step w st b = Inr st1"
    by blast
  moreover from Cons.prems have "\<forall>b \<in> set bs. well_behaved w b" by simp
  from Cons.IH [OF this, of st1]
  obtain st' where "test_loop w st1 bs = Inr st'" by blast
  ultimately show ?case by simp
qed

lemma do_train_total:
  assumes "args ''iteration'' = Some start" and "trl \<noteq> []"
    and "\<forall>b \<in> set trl \<union> set tel. well_behaved w b"
  shows "\<exists>r. do_train w trl tel args s0 = Inr r"
proof -
  let ?st1 = "call ModelTrain (model_train w)
      \<lparr>ext = s0, trace = [LogDebug StartTraining], arguments = args,
       train_meters = [], test_meters = []\<rparr>"
  from assms(3) have a: "\<forall>b \<in> set trl. well_behaved w b" and b: "\<forall>b \<in> set tel. well_behaved w b"
    by auto
  from train_loop_total [OF a] obtain st2
    where l1: "train_loop w (length trl) ?st1 (enumerate_py start trl) = Inr st2" by blast
  from test_loop_total [OF b] obtain st3
    where l2: "test_loop w (st2\<lparr>test_meters := []\<rparr>) tel = Inr st3" by blast
  show ?thesis
    using assms(1,2) by (simp add: do_train_def Let_def l1 l2)
qed

lemma do_train_result:
  assumes "do_train w trl tel args s0 = Inr ((tm, em), st')"
  shows "tm = train_meters st'" and "em = test_meters st'"
    and "tm = updates_of TrainMeters (trace st')" and "em = updates_of TestMeters (trace st')"
proof -
  let ?st1 = "call ModelTrain (model_train w)
      \<lparr>ext = s0, trace = [LogDebug StartTraining], arguments = args,
       train_meters = [], test_meters = []\<rparr>"
  from assms obtain start st2 st3 where "args ''iteration'' = Some start"
    and l1: "train_loop w (length trl) ?st1 (enumerate_py start trl) = Inr st2"
    and l2: "test_loop w (st2\<lparr>test_meters := []\<rparr>) tel = Inr st3"
    and res: "tm = train_meters st3" "em = test_meters st3"
      "st' = emit (LogDebug TotalTimeMsg) (emit (LogDebug (TestMsg (test_meters st3))) st3)"
    by (auto simp: do_train_def Let_def emit_def split: option.splits sum.splits if_splits)
  from train_loop_events [OF l1] obtain e1 where e1: "trace st2 = trace ?st1 @ e1"
    "train_meters st2 = train_meters ?st1 @ updates_of TrainMeters e1"
    "updates_of TestMeters e1 = []" by blast
  from test_loop_events [OF l2] obtain e2 where e2: "trace st3 = trace (st2\<lparr>test_meters := []\<rparr>) @ e2"
    "test_meters st3 = test_meters (st2\<lparr>test_meters := []\<rparr>) @ updates_of TestMeters e2"
    "updates_of TrainMeters e2 = []" "train_meters st3 = train_meters (st2\<lparr>test_meters := []\<rparr>)"
    by blast
  have tr: "trace st' = [LogDebug StartTraining, ModelTrain] @ e1 @ e2
      @ [LogDebug (TestMsg (test_meters st3)), LogDebug TotalTimeMsg]"
    using e1(1) e2(1) by (simp add: res(3) emit_def call_def)
  show "tm = train_meters st'" by (simp add: res emit_def)
  show "em = test_meters st'" by (simp add: res emit_def)
  show "tm = updates_of TrainMeters (trace st')"
    using e1(2) e2(3,4) by (simp add: tr res(1) updates_of_append call_def)
  show "em = updates_of TestMeters (trace st')"
    using e1(3) e2(2) by (simp add: tr res(2) updates_of_append)
qed

lemma example_well_behaved:
  "well_behaved (example_world ws rk ds) None"
  "well_behaved (example_world ws rk ds) (Some [(''b'', 1), (''a'', 3)])"
  by (simp_all add: well_behaved_def example_world_def usable_def)

text \<open>
  C5, as stated: every iteration of the training loop and of the test loop issues exactly
  one collective reduce. An iteration on a single worker (\<open>world_size = 1\<close>) issues
  none, and neither does an iteration whose forward pass raises, whatever the world size.
\<close>

theorem one_reduce_per_iteration_counterexample:
  "map_sum id (reduce_calls \<circ> trace)
      (train_step (example_world 1 0 []) 1 example_state (0, Some [(''b'', 1), (''a'', 3)]))
     = Inr 0
   \<and> map_sum id (reduce_calls \<circ> trace)
      (train_step (example_world 2 0 [[(''a'', 5), (''b'', 7)]]) 1 example_state (0, None))
     = Inr 0"
proof
  show "map_sum id (reduce_calls \<circ> trace)
      (train_step (example_world 1 0 []) 1 example_state (0, Some [(''b'', 1), (''a'', 3)]))
     = Inr 0"
    by (simp only: example_train_step)
       (simp add: trained_def after_forward_def example_state_def periodic_log_def
          reduce_calls_def Let_def)
  have "train_step (example_world 2 0 [[(''a'', 5), (''b'', 7)]]) 1 example_state (0, None)
      = Inr (after_forward example_state 0 (ext example_state))"
    by (rule train_step_dropped) (rule example_forward)
  then show "map_sum id (reduce_calls \<circ> trace)
      (train_step (example_world 2 0 [[(''a'', 5), (''b'', 7)]]) 1 example_state (0, None))
     = Inr 0"
    by (simp add: after_forward_def example_state_def reduce_calls_def)
qed

text \<open>
  C5, amended: an iteration of the training loop or of the test loop that completes issues
  exactly one collective reduce when its forward pass succeeded and \<open>world_size \<ge> 2\<close>,
  and none when the forward pass raised or \<open>world_size < 2\<close>. \<open>DistReduce\<close> is the
  only event of the trace that involves another worker, so there is no other coordination.
\<close>

theorem reduce_calls_per_iteration:
  "(train_step w m st (i, b) = Inr st' \<longrightarrow>
      reduce_calls (trace st') = reduce_calls (trace st) +
        (if fst (model_call w (to_device w b) (scheduler_step w (ext st))) \<noteq> None
            \<and> 2 \<le> get_world_size w then 1 else 0))
   \<and> (test_step w st b = Inr st'' \<longrightarrow>
      reduce_calls (trace st'') = reduce_calls (trace st) +
        (if fst (model_call w (to_device w b) (ext st)) \<noteq> None
            \<and> 2 \<le> get_world_size w then 1 else 0))"
proof (intro conjI impI)
  assume "train_step w m st (i, b) = Inr st'"
  from train_step_events [OF this] obtain evs where "trace st' = trace st @ evs"
    and "reduce_calls evs =
          (if fst (model_call w (to_device w b) (scheduler_step w (ext st))) \<noteq> None
              \<and> 2 \<le> get_world_size w then 1 else 0)" by blast
  then show "reduce_calls (trace st') = reduce_calls (trace st) +
        (if fst (model_call w (to_device w b) (scheduler_step w (ext st))) \<noteq> None
            \<and> 2 \<le> get_world_size w then 1 else 0)"
    by (simp only: reduce_calls_append)
next
  assume "test_step w st b = Inr st''"
  from test_step_events [OF this] obtain evs where "trace st'' = trace st @ evs"
    and "reduce_calls evs =
          (if fst (model_call w (to_device w b) (ext st)) \<noteq> None
              \<and> 2 \<le> get_world_size w then 1 else 0)" by blast
  then show "reduce_calls (trace st'') = reduce_calls (trace st) +
        (if fst (model_call w (to_device w b) (ext st)) \<noteq> None
            \<and> 2 \<le> get_world_size w then 1 else 0)"
    by (simp only: reduce_calls_append)
qed

theorem reduce_calls_per_iteration_witness:
  "map_sum id (reduce_calls \<circ> trace)
      (train_step (example_world 2 0 [[(''a'', 5), (''b'', 7)]]) 1 example_state
         (0, Some [(''b'', 1), (''a'', 3)])) = Inr 1
   \<and> map_sum id (reduce_calls \<circ> trace)
      (test_step (example_world 2 0 [[(''a'', 5), (''b'', 7)]]) example_state
         (Some [(''b'', 1), (''a'', 3)])) = Inr 1"
proof -
  let ?w = "example_world 2 0 [[(''a'', 5), (''b'', 7)]]"
  let ?b = "Some [(''b'', 1), (''a'', 3)] :: loss_dict option"
  from train_step_total [OF example_well_behaved(2)]
  obtain st' where s1: "train_step ?w 1 example_state (0, ?b) = Inr st'" by blast
  from test_step_total [OF example_well_behaved(2)]
  obtain st'' where s2: "test_step ?w example_state ?b = Inr st''" by blast
  have ws: "2 \<le> get_world_size ?w" by (simp add: example_world_def)
  have t0: "reduce_calls (trace example_state) = 0"
    by (simp add: example_state_def reduce_calls_def)
  from reduce_calls_per_iteration [of ?w 1 example_state 0 ?b st' st''] s1 s2
  have "reduce_calls (trace st') = 1" and "reduce_calls (trace st'') = 1"
    by (simp_all only: example_forward example_test_forward fst_conv ws t0) simp_all
  with s1 s2 show ?thesis by simp
qed

text \<open>
  C10. In every training iteration \<^verbatim>\<open>arguments["iteration"]\<close> is set to the one-based
  index \<open>i + 1\<close> and the scheduler is stepped before the model is called; a batch
  dropped by the exception handler has therefore advanced both. When the loop has run over
  all the batches, \<^verbatim>\<open>arguments["iteration"]\<close> is the starting iteration plus the number
  of batches, the dropped ones included; and the loop does run over all of them when the
  model behaves well on each.
\<close>

theorem iteration_counter_advances:
  "(train_step w m st (i, b) = Inr st1 \<longrightarrow>
       arguments st1 ''iteration'' = Some (i + 1)
     \<and> (\<exists>evs. trace st1 = trace st @ [SchedulerStep, ToDevice, ModelCall] @ evs))
   \<and> (model_call w (to_device w b) (scheduler_step w (ext st)) = (None, s') \<longrightarrow>
       (\<exists>st2. train_step w m st (i, b) = Inr st2
          \<and> arguments st2 ''iteration'' = Some (i + 1)
          \<and> ext st2 = s'
          \<and> trace st2 = trace st @ [SchedulerStep, ToDevice, ModelCall]))
   \<and> (arguments st ''iteration'' = Some start
        \<and> train_loop w m st (enumerate_py start bs) = Inr st' \<longrightarrow>
       arguments st' ''iteration'' = Some (start + int (length bs)))
   \<and> ((\<forall>b \<in> set bs. well_behaved w b) \<longrightarrow>
       (\<exists>st'. train_loop w m st (enumerate_py start bs) = Inr st'))"
proof (intro conjI impI)
  assume a: "train_step w m st (i, b) = Inr st1"
  from train_step_arguments [OF a] show "arguments st1 ''iteration'' = Some (i + 1)" by simp
  from train_step_trace_prefix [OF a]
  show "\<exists>evs. trace st1 = trace st @ [SchedulerStep, ToDevice, ModelCall] @ evs" .
next
  assume "model_call w (to_device w b) (scheduler_step w (ext st)) = (None, s')"
  then have "train_step w m st (i, b) = Inr (after_forward st i s')"
    by (rule train_step_dropped)
  then show "\<exists>st2. train_step w m st (i, b) = Inr st2
          \<and> arguments st2 ''iteration'' = Some (i + 1)
          \<and> ext st2 = s'
          \<and> trace st2 = trace st @ [SchedulerStep, ToDevice, ModelCall]"
    by (simp add: after_forward_def)
next
  assume "arguments st ''iteration'' = Some start
        \<and> train_loop w m st (enumerate_py start bs) = Inr st'"
  then have s: "arguments st ''iteration'' = Some start"
    and l: "train_loop w m st (enumerate_py start bs) = Inr st'" by simp_all
  from train_loop_iteration [OF l] s
  show "arguments st' ''iteration'' = Some (start + int (length bs))" by simp
next
  assume "\<forall>b \<in> set bs. well_behaved w b"
  then show "\<exists>st'. train_loop w m st (enumerate_py start bs) = Inr st'"
    by (rule train_loop_total)
qed

theorem iteration_counter_advances_witness:
  "map_sum id (\<lambda>st. arguments st ''iteration'')
      (train_loop (example_world 1 0 []) 2 example_state
         (enumerate_py 0 [None, Some [(''b'', 1), (''a'', 3)]])) = Inr (Some 2)"
proof -
  have s: "arguments example_state ''iteration'' = Some 0"
    by (simp add: example_state_def)
  from iteration_counter_advances [of "example_world 1 0 []" 2 example_state 0 None _ 0 0
      "[None, Some [(''b'', 1), (''a'', 3)]]"] s example_run
  have "arguments (trained (example_world 1 0 []) 2 1 [(''b'', 1), (''a'', 3)]
      [(''b'', 1), (''a'', 3)] (after_forward (after_forward example_state 0 0) 1 0))
      ''iteration'' = Some 2"
    by (simp del: One_nat_def)
  then show ?thesis by (simp only: example_run) simp
qed

lemma example_test_step:
  "test_step (example_world 1 0 []) st (Some [(''c'', 2)])
     = Inr (tested [(''c'', 2)] (after_test_forward st (ext st)))"
proof (rule test_step_success)
  show "model_call (example_world 1 0 []) (to_device (example_world 1 0 []) (Some [(''c'', 2)]))
      (ext st) = (Some [(''c'', 2)], ext st)"
    by (rule example_test_forward)
  show "reduce_loss_dict (example_world 1 0 []) [(''c'', 2)] (after_test_forward st (ext st))
      = (Inr [(''c'', 2)], after_test_forward st (ext st))"
    using example_single by (rule reduce_loss_dict_single)
  show "''loss'' \<notin> set (map fst [(''c'', 2::real)])" by simp
qed

lemma example_test_well_behaved: "well_behaved (example_world ws rk ds) (Some [(''c'', 2)])"
  by (simp add: well_behaved_def example_world_def usable_def)

lemma example_train_dropped:
  "train_step (example_world 1 0 []) m st (i, None) = Inr (after_forward st i (ext st))"
  by (rule train_step_dropped) (rule example_forward)

lemma example_do_train:
  "map_sum id fst (do_train (example_world 1 0 []) [None, Some [(''b'', 1), (''a'', 3)]]
        [Some [(''c'', 2)]] [''iteration'' \<mapsto> 0] 0)
     = Inr ([(Tensor 4, [(''b'', 1), (''a'', 3)])], [(Tensor 2, [(''c'', 2)])])"
  by (simp add: do_train_def Let_def example_train_dropped example_train_step example_test_step
      trained_def tested_def after_forward_def after_test_forward_def call_def emit_def
      py_sum_nonempty periodic_log_def del: One_nat_def)

text \<open>
  With an empty training loader \<^verbatim>\<open>do_train\<close> never returns: when nothing has
  raised before, the closing message divides by \<^verbatim>\<open>max_iter\<close>, which is \<open>0\<close>.
\<close>

lemma do_train_empty_loader:
  "do_train w [] tel args s0 \<in> range Inl"
  by (auto simp: do_train_def Let_def split: option.splits sum.splits)

text \<open>
  C7. \<^verbatim>\<open>do_train\<close> takes the model, optimizer, scheduler and device (the world), the
  training loader, the test loader and the \<^verbatim>\<open>arguments\<close> mapping, and returns a pair:
  first the training logger, second the test logger. The first has received exactly the
  updates of the training loop and the second exactly those of the test loop. It does
  return when \<^verbatim>\<open>arguments\<close> has the key \<^verbatim>\<open>iteration\<close>, the training loader is not
  empty and the model behaves well on every batch.
\<close>

theorem do_train_returns_meters:
  "(do_train w trl tel args s0 = Inr ((tm, em), st') \<longrightarrow>
      tm = train_meters st' \<and> em = test_meters st'
      \<and> tm = updates_of TrainMeters (trace st')
      \<and> em = updates_of TestMeters (trace st'))
   \<and> (args ''iteration'' \<noteq> None \<and> trl \<noteq> [] \<and> (\<forall>b \<in> set trl \<union> set tel. well_behaved w b) \<longrightarrow>
      (\<exists>r. do_train w trl tel args s0 = Inr r))"
proof (intro conjI impI)
  assume a: "do_train w trl tel args s0 = Inr ((tm, em), st')"
  from do_train_result [OF a]
  show "tm = train_meters st'" "em = test_meters st'"
    "tm = updates_of TrainMeters (trace st')" "em = updates_of TestMeters (trace st')" .
next
  assume "args ''iteration'' \<noteq> None \<and> trl \<noteq> [] \<and> (\<forall>b \<in> set trl \<union> set tel. well_behaved w b)"
  then obtain start where "args ''iteration'' = Some start" and "trl \<noteq> []"
    and "\<forall>b \<in> set trl \<union> set tel. well_behaved w b" by auto
  then show "\<exists>r. do_train w trl tel args s0 = Inr r" by (rule do_train_total)
qed

theorem do_train_returns_meters_witness:
  "\<exists>st'. do_train (example_world 1 0 []) [None, Some [(''b'', 1), (''a'', 3)]]
        [Some [(''c'', 2)]] [''iteration'' \<mapsto> 0] 0
       = Inr (([(Tensor 4, [(''b'', 1), (''a'', 3)])], [(Tensor 2, [(''c'', 2)])]), st')
     \<and> updates_of TrainMeters (trace st') = [(Tensor 4, [(''b'', 1), (''a'', 3)])]
     \<and> updates_of TestMeters (trace st') = [(Tensor 2, [(''c'', 2)])]"
proof -
  let ?w = "example_world 1 0 []"
  let ?trl = "[None, Some [(''b'', 1), (''a'', 3)]] :: loss_dict option list"
  let ?tel = "[Some [(''c'', 2)]] :: loss_dict option list"
  let ?args = "[''iteration'' \<mapsto> (0::int)]"
  let ?tm = "[(Tensor 4, [(''b'', 1), (''a'', 3)])] :: meter"
  let ?em = "[(Tensor 2, [(''c'', 2)])] :: meter"
  have h: "?args ''iteration'' \<noteq> None \<and> ?trl \<noteq> [] \<and> (\<forall>b \<in> set ?trl \<union> set ?tel. well_behaved ?w b)"
    using example_well_behaved [of 1 0 "[]"] example_test_well_behaved [of 1 0 "[]"]
    by (simp del: One_nat_def)
  from do_train_returns_meters [of ?w ?trl ?tel ?args 0] h
  obtain r where r: "do_train ?w ?trl ?tel ?args 0 = Inr r" by blast
  with example_do_train have "fst r = (?tm, ?em)" by simp
  then obtain st' where "r = ((?tm, ?em), st')" by (cases r) auto
  with r have d: "do_train ?w ?trl ?tel ?args 0 = Inr ((?tm, ?em), st')" by simp
  from do_train_returns_meters [of ?w ?trl ?tel ?args 0 ?tm ?em st'] d
  have "updates_of TrainMeters (trace st') = ?tm \<and> updates_of TestMeters (trace st') = ?em"
    by metis
  with d show ?thesis by blast
qed

section \<open>\<^verbatim>\<open>reduce_loss_dict\<close> and aliasing\<close>

lemma reduce_loss_dict_store_single:
  "get_world_size w < 2 \<Longrightarrow> reduce_loss_dict_store w r h p = (Inr r, h, p)"
  by (simp add: reduce_loss_dict_store_def)

lemma set_dict_set: "set (dict_set d k v) \<subseteq> insert (k, v) (set d)"
  by (induction d) (auto split: if_splits)

lemma set_foldl_dict_set:
  "set (foldl (\<lambda>d (k, v). dict_set d k v) d kvs) \<subseteq> set d \<union> set kvs"
proof (induction kvs arbitrary: d)
  case Nil
  show ?case by simp
next
  case (Cons kv kvs)
  obtain k v where kv: "kv = (k, v)" by (cases kv)
  from Cons.IH [of "dict_set d k v"] set_dict_set [of d k v] show ?case
    by (auto simp: kv)
qed

lemma set_dict_of_items: "set (dict_of_items kvs) \<subseteq> set kvs"
  using set_foldl_dict_set [of "[]" kvs] by (simp add: dict_of_items_def)

lemma views_of_fresh_storage:
  assumes "kt \<in> set (dict_of_items (zip names (map (\<lambda>i. (a, i)) is)))"
  shows "fst (snd kt) = a"
proof -
  from assms set_dict_of_items have "kt \<in> set (zip names (map (\<lambda>i. (a, i)) is))" by blast
  moreover obtain k t where kt: "kt = (k, t)" by (cases kt)
  ultimately have "t \<in> set (map (\<lambda>i. (a, i)) is)" by (simp only: set_zip_rightD)
  then show ?thesis by (auto simp: kt)
qed

lemma view_of_fresh_storage:
  "(k, a', i) \<in> set (dict_of_items (zip names (map (Pair a) is))) \<Longrightarrow> a' = a"
  using views_of_fresh_storage [of "(k, a', i)" names a "is"] by simp

lemma reduce_loss_dict_store_multi:
  assumes "2 \<le> get_world_size w" and "reduce_loss_dict_store w r h p = (res, h', p')"
  shows "take (length (tensors h)) (tensors h') = tensors h"
    and "take (length (dicts h)) (dicts h') = dicts h"
    and "\<forall>r'. res = Inr r' \<longrightarrow> r' = length (dicts h) \<and> length (dicts h') = Suc r'
            \<and> length (tensors h') = Suc (length (tensors h))
            \<and> (\<forall>kt \<in> set (dicts h' ! r'). fst (snd kt) = length (tensors h))"
  using assms
  by (auto simp: reduce_loss_dict_store_def Let_def dest: view_of_fresh_storage
      split: sum.splits prod.splits if_splits)

lemma dict_set_map:
  "dict_set (map (\<lambda>(k, v). (k, f v)) d) k (f v) = map (\<lambda>(k, v). (k, f v)) (dict_set d k v)"
  by (induction d) auto

lemma foldl_dict_set_map:
  "foldl (\<lambda>d (k, v). dict_set d k v) (map (\<lambda>(k, v). (k, f v)) d) (map (\<lambda>(k, v). (k, f v)) kvs)
     = map (\<lambda>(k, v). (k, f v)) (foldl (\<lambda>d (k, v). dict_set d k v) d kvs)"
proof (induction kvs arbitrary: d)
  case Nil
  show ?case by simp
next
  case (Cons kv kvs)
  obtain k v where kv: "kv = (k, v)" by (cases kv)
  show ?case using Cons.IH [of "dict_set d k v"] by (simp add: kv dict_set_map)
qed

lemma dict_of_items_map:
  "dict_of_items (map (\<lambda>(k, v). (k, f v)) kvs) = map (\<lambda>(k, v). (k, f v)) (dict_of_items kvs)"
  using foldl_dict_set_map [of f "[]" kvs] by (simp add: dict_of_items_def)

lemma zip_map_values: "map (\<lambda>(k, v). (k, f v)) (zip ks vs) = zip ks (map f vs)"
  by (simp add: zip_map2)

lemma collect_map:
  "collect (map (\<lambda>(k, v). (k, f v)) d) ks
     = map_sum id (\<lambda>(ns, vs). (ns, map f vs)) (collect d ks)"
proof (induction ks)
  case Nil
  show ?case by simp
next
  case (Cons k ks)
  have m: "map_of (map (\<lambda>(k, v). (k, f v)) d) k = map_option f (map_of d k)"
    by (simp add: map_of_map)
  show ?case
    by (cases "map_of d k"; cases "collect d ks") (auto simp: m Cons.IH)
qed

lemma views_read:
  assumes "tensors h' ! a = buf"
  shows "map (read_tensor h') (map (Pair a) [0..<length buf]) = buf"
  using assms by (simp add: read_tensor_def map_nth comp_def)

lemma reduce_loss_dict_store_refines:
  assumes "reduce_loss_dict_store w r h p = (res, h', p')"
  shows "reduce_loss_dict w (deref h r) p = (map_sum id (deref h') res, p')"
proof (cases "2 \<le> get_world_size w")
  case False
  then have "reduce_loss_dict_store w r h p = (Inr r, h, p)"
    by (simp add: reduce_loss_dict_store_single)
  with assms have "res = Inr r" and "h' = h" and "p' = p" by simp_all
  with False show ?thesis by (simp add: reduce_loss_dict_single)
next
  case True
  let ?D = "dicts h ! r"
  have keys: "map fst (deref h r) = map fst ?D"
    by (simp add: deref_def comp_def case_prod_unfold)
  have col: "collect (deref h r) (sort (map fst ?D))
      = map_sum id (\<lambda>(ns, vs). (ns, map (read_tensor h) vs)) (collect ?D (sort (map fst ?D)))"
    unfolding deref_def by (rule collect_map)
  have "set (sort (map fst ?D)) \<subseteq> fst ` set ?D" by simp
  from collect_keys [OF this] obtain refs
    where cD: "collect ?D (sort (map fst ?D)) = Inr (sort (map fst ?D), refs)" by blast
  have val: "reduce_loss_dict w (deref h r) p =
      (case torch_stack (map (read_tensor h) refs) of
         Inl e \<Rightarrow> (Inl e, p)
       | Inr all_losses \<Rightarrow>
           (let (received, s') = dist_reduce w all_losses (ext p);
                p' = p\<lparr>ext := s', trace := trace p @ [DistReduce all_losses]\<rparr>;
                reduced = in_place all_losses received;
                averaged = (if get_rank w = 0
                            then map (\<lambda>v. v / real (get_world_size w)) reduced
                            else reduced)
            in (Inr (dict_of_items (zip (sort (map fst ?D)) averaged)), p')))"
    using True by (simp add: reduce_loss_dict_def keys col cD)
  show ?thesis
  proof (cases "refs = []")
    case True
    from assms \<open>2 \<le> get_world_size w\<close> True
    have "res = Inl RuntimeError" and "p' = p"
      by (simp_all add: reduce_loss_dict_store_def cD torch_stack_def)
    then show ?thesis by (simp add: val True torch_stack_def)
  next
    case False
    obtain received s' where dr: "dist_reduce w (map (read_tensor h) refs) (ext p) = (received, s')"
      by (cases "dist_reduce w (map (read_tensor h) refs) (ext p)")
    let ?buf = "if get_rank w = 0
        then map (\<lambda>v. v / real (get_world_size w)) (in_place (map (read_tensor h) refs) received)
        else in_place (map (read_tensor h) refs) received"
    let ?a = "length (tensors h)"
    let ?nd = "dict_of_items (zip (sort (map fst ?D)) (map (Pair ?a) [0..<length ?buf]))"
    from assms True False have res: "res = Inr (length (dicts h))"
      and h': "h' = h\<lparr>tensors := tensors h @ [?buf], dicts := dicts h @ [?nd]\<rparr>"
      and p': "p' = p\<lparr>ext := s', trace := trace p @ [DistReduce (map (read_tensor h) refs)]\<rparr>"
      by (auto simp: reduce_loss_dict_store_def Let_def cD torch_stack_def dr)
    have "tensors h' ! ?a = ?buf" by (simp add: h')
    from views_read [OF this]
    have rd: "map (read_tensor h') (map (Pair ?a) [0..<length ?buf]) = ?buf" .
    have "deref h' (length (dicts h)) = map (\<lambda>(k, t). (k, read_tensor h' t)) ?nd"
      by (simp add: deref_def h')
    also have "\<dots> = dict_of_items (zip (sort (map fst ?D)) ?buf)"
      by (simp only: dict_of_items_map [symmetric] zip_map_values rd)
    finally have d': "deref h' (length (dicts h)) = dict_of_items (zip (sort (map fst ?D)) ?buf)" .
    have "reduce_loss_dict w (deref h r) p = (Inr (dict_of_items (zip (sort (map fst ?D)) ?buf)), p')"
      using False by (simp add: val torch_stack_def dr Let_def p')
    then show ?thesis by (simp add: res d')
  qed
qed

text \<open>
  The lemma above ties the two embeddings together: read through the store, the function
  on the store returns what \<^verbatim>\<open>reduce_loss_dict\<close> returns on the values.
\<close>

lemma sort_example_refs:
  "sort (map fst [(''b'', (0::nat, 0::nat)), (''a'', (1, 0))]) = [''a'', ''b'']"
  by simp

lemma collect_example_refs:
  "collect [(''b'', (0::nat, 0::nat)), (''a'', (1, 0))] [''a'', ''b'']
     = Inr ([''a'', ''b''], [(1, 0), (0, 0)])"
  by simp

lemma example_store_run:
  "reduce_loss_dict_store (example_world 2 0 [[(''a'', 5), (''b'', 7)]]) 0 example_store example_state
     = (Inr 1,
        \<lparr>tensors = [[1], [2], [7 / 2, 4]],
         dicts = [[(''b'', (0, 0)), (''a'', (1, 0))], [(''a'', (2, 0)), (''b'', (2, 1))]]\<rparr>,
        example_state\<lparr>ext := 0, trace := [DistReduce [2, 1]]\<rparr>)"
proof -
  have d: "dicts example_store ! 0 = [(''b'', (0, 0)), (''a'', (1, 0))]"
    by (simp add: example_store_def)
  have st: "stacked [(''a'', 5), (''b'', 7)] = [5, 7]"
    by (simp add: stacked_def sort_example_a_b loss_of_def)
  have vals: "map (read_tensor example_store) [(1, 0), (0, 0)] = [2, 1]"
    by (simp add: read_tensor_def example_store_def)
  have up: "[0..<2] = [0, Suc 0]" by (simp add: upt_rec)
  show ?thesis
    unfolding reduce_loss_dict_store_def d sort_example_refs collect_example_refs
    by (simp add: Let_def torch_stack_def vals example_world_def st in_place_def
        example_store_def example_state_def dict_of_items_def up read_tensor_def)
qed

text \<open>
  C8. \<^verbatim>\<open>reduce_loss_dict\<close> never mutates its input, whatever the world size and whatever
  the outcome: every tensor storage and every dictionary object that existed before the
  call is unchanged after it, the input dictionary and its tensors among them. When
  \<open>world_size < 2\<close> the input dictionary itself is returned and the store is left as
  it was. When \<open>world_size \<ge> 2\<close> the stacked tensor is a new storage, the only one the
  collective and the division write to, and the returned dictionary is a new object whose
  values are views of that new storage.
\<close>

theorem reduce_loss_dict_store_frame:
  assumes "reduce_loss_dict_store w r h p = (res, h', p')"
  shows "take (length (tensors h)) (tensors h') = tensors h
       \<and> take (length (dicts h)) (dicts h') = dicts h
       \<and> (get_world_size w < 2 \<longrightarrow> res = Inr r \<and> h' = h)
       \<and> (2 \<le> get_world_size w \<longrightarrow>
            (\<forall>r'. res = Inr r' \<longrightarrow> r' = length (dicts h) \<and> length (dicts h') = Suc r'
               \<and> length (tensors h') = Suc (length (tensors h))
               \<and> (\<forall>kt \<in> set (dicts h' ! r'). fst (snd kt) = length (tensors h))))"
proof (cases "2 \<le> get_world_size w")
  case True
  from reduce_loss_dict_store_multi [OF True assms] True show ?thesis by simp
next
  case False
  then have "reduce_loss_dict_store w r h p = (Inr r, h, p)"
    by (simp add: reduce_loss_dict_store_single)
  with assms False show ?thesis by simp
qed

theorem reduce_loss_dict_store_frame_witness:
  "take (length (tensors example_store))
      (tensors (fst (snd (reduce_loss_dict_store (example_world 2 0 [[(''a'', 5), (''b'', 7)]])
         0 example_store example_state)))) = tensors example_store
   \<and> take (length (dicts example_store))
      (dicts (fst (snd (reduce_loss_dict_store (example_world 2 0 [[(''a'', 5), (''b'', 7)]])
         0 example_store example_state)))) = dicts example_store"
proof -
  let ?h = "\<lparr>tensors = [[1], [2], [7 / 2, 4]],
         dicts = [[(''b'', (0, 0)), (''a'', (1, 0))], [(''a'', (2, 0)), (''b'', (2, 1))]]\<rparr>"
  have r: "fst (snd (reduce_loss_dict_store (example_world 2 0 [[(''a'', 5), (''b'', 7)]])
         0 example_store example_state)) = ?h"
    by (simp only: example_store_run fst_conv snd_conv)
  from reduce_loss_dict_store_frame [OF example_store_run]
  have "take (length (tensors example_store)) (tensors ?h) = tensors example_store
      \<and> take (length (dicts example_store)) (dicts ?h) = dicts example_store"
    by blast
  then show ?thesis by (simp only: r)
qed

end
